theory Spec2Isabelle
  imports Main "HOL-Library.Sublist"
begin

section \<open>Strings\<close>

text \<open>
  A JavaScript string is a sequence of UTF-16 code units. It is modelled as a HOL
  \<open>string\<close>, one \<open>char\<close> per code unit, which covers the strings whose code units
  are below 256 (ASCII and Latin-1). Accented letters of the Portuguese messages are
  written by code, for example \<open>CHR 0xE7\<close> for c with cedilla.
\<close>

definition isWhiteSpace :: "char \<Rightarrow> bool" where
  \<comment> \<open>WhiteSpace and LineTerminator of ECMAScript, in the range below 256.\<close>
  "isWhiteSpace c \<longleftrightarrow>
     c \<in> set [CHR 0x09, CHR 0x0A, CHR 0x0B, CHR 0x0C, CHR 0x0D, CHR 0x20, CHR 0xA0]"

definition isLineTerminator :: "char \<Rightarrow> bool" where
  \<comment> \<open>The characters a regular-expression dot does not match.\<close>
  "isLineTerminator c \<longleftrightarrow> c = CHR 0x0A \<or> c = CHR 0x0D"

definition trim :: "string \<Rightarrow> string" where
  "trim s = rev (dropWhile isWhiteSpace (rev (dropWhile isWhiteSpace s)))"

fun includesStr :: "string \<Rightarrow> string \<Rightarrow> bool" where
  \<comment> \<open>\<open>s.includes(sub)\<close>\<close>
  "includesStr [] sub = (sub = [])"
| "includesStr (c # cs) sub = (prefix sub (c # cs) \<or> includesStr cs sub)"

definition toLowerAscii :: "char \<Rightarrow> char" where
  "toLowerAscii c =
     (let n = (of_char c :: nat) in if 65 \<le> n \<and> n \<le> 90 then char_of (n + 32) else c)"

definition digitChar :: "nat \<Rightarrow> char" where
  "digitChar d = char_of (48 + d)"

function stringOfNat :: "nat \<Rightarrow> string" where
  \<comment> \<open>Number-to-string conversion of a non-negative integer, in decimal.\<close>
  "stringOfNat n =
     (if n < 10 then [digitChar n] else stringOfNat (n div 10) @ [digitChar (n mod 10)])"
  by pat_completeness auto
termination
  by (relation "measure id") auto

declare stringOfNat.simps [simp del]

section \<open>Import Source Client: spreadsheet writeback (services/sheets.ts)\<close>

text \<open>
  \<open>updateSheetCell(accessToken, spreadsheetId, rowIndex, value, columnLetter = 'F')\<close>
  issues one PUT request and raises when the response is not ok. The request is a record;
  the answer of the spreadsheet host is the argument \<open>responseOk\<close>. A row index is an
  array index, hence a natural number.
\<close>

record SheetPut =
  put_method :: string
  put_url :: string
  put_authorization :: string
  put_values :: "string list list"

definition sheetRow :: "nat \<Rightarrow> nat" where
  "sheetRow rowIndex = rowIndex + 2"

definition cellRange :: "string \<Rightarrow> nat \<Rightarrow> string" where
  "cellRange columnLetter rowIndex = columnLetter @ stringOfNat (sheetRow rowIndex)"

definition columnLetterOrDefault :: "string option \<Rightarrow> string" where
  "columnLetterOrDefault columnLetter = (case columnLetter of None \<Rightarrow> ''F'' | Some c \<Rightarrow> c)"

definition updateSheetCellRequest ::
  "string \<Rightarrow> string \<Rightarrow> nat \<Rightarrow> string \<Rightarrow> string option \<Rightarrow> SheetPut" where
  "updateSheetCellRequest accessToken spreadsheetId rowIndex val columnLetter =
     \<lparr> put_method = ''PUT'',
       put_url = ''https://sheets.googleapis.com/v4/spreadsheets/'' @ spreadsheetId
                 @ ''/values/'' @ cellRange (columnLetterOrDefault columnLetter) rowIndex
                 @ ''?valueInputOption=USER_ENTERED'',
       put_authorization = ''Bearer '' @ accessToken,
       put_values = [[val]] \<rparr>"

definition updateSheetCell ::
  "string \<Rightarrow> string \<Rightarrow> nat \<Rightarrow> string \<Rightarrow> string option \<Rightarrow> bool \<Rightarrow> string + SheetPut" where
  "updateSheetCell accessToken spreadsheetId rowIndex val columnLetter responseOk =
     (if \<not> responseOk then Inl ''Erro ao atualizar a planilha''
      else Inr (updateSheetCellRequest accessToken spreadsheetId rowIndex val columnLetter))"

section \<open>Reachability-Resilient API Client (services/wordpress.ts)\<close>

subsection \<open>Base-URL normalisation\<close>

definition hasProtocol :: "string \<Rightarrow> bool" where
  \<comment> \<open>\<open>/^https?:\/\//i.test(s)\<close>\<close>
  "hasProtocol s \<longleftrightarrow>
     map toLowerAscii (take 7 s) = ''http://'' \<or> map toLowerAscii (take 8 s) = ''https://''"

definition removeTrailingSlash :: "string \<Rightarrow> string" where
  \<comment> \<open>\<open>s.replace(/\/$/, '')\<close>\<close>
  "removeTrailingSlash s = (if s \<noteq> [] \<and> last s = CHR ''/'' then butlast s else s)"

fun removeFrom :: "string \<Rightarrow> string \<Rightarrow> string" where
  \<comment> \<open>\<open>s.replace(/M.*$/, '')\<close> for a literal \<open>M\<close>: the leftmost place where \<open>M\<close> starts
      and no line terminator follows up to the end of the string; everything from there
      on is removed.\<close>
  "removeFrom M [] = []"
| "removeFrom M (c # cs) =
     (if prefix M (c # cs) \<and> \<not> list_ex isLineTerminator (drop (length M) (c # cs))
      then [] else c # removeFrom M cs)"

definition cleanWpUrl :: "string \<Rightarrow> string" where
  "cleanWpUrl url =
     (let clean = trim url;
          clean = (if \<not> hasProtocol clean then ''https://'' @ clean else clean);
          clean = removeTrailingSlash clean;
          clean = removeFrom ''/wp-admin'' clean;
          clean = removeFrom ''/wp-login.php'' clean;
          clean = removeFrom ''/wp-json'' clean
      in clean)"

subsection \<open>The network and the site record\<close>

text \<open>
  \<open>fetch\<close> either rejects (a network-level failure carrying a message) or resolves to a
  response with a status; \<open>response.json()\<close> either yields the decoded object or rejects
  with a message. The network is an oracle: the answer to the \<open>n\<close>-th request of a run,
  sent to a given URL. Every operation returns its result together with the list of URLs
  it requested, in order. A decoded value is \<open>None\<close> when it is \<open>null\<close>; of any other
  value only the fields read by this program are kept, each possibly absent (a value that
  is not an object has neither). Reading a field of \<open>null\<close> raises a \<open>TypeError\<close>.
\<close>

record WpJson =
  json_id :: "nat option"
  json_link :: "string option"

datatype response =
    NetworkFailure string
  | HttpResponse (status: nat) (json: "string + WpJson option")

type_synonym net = "nat \<Rightarrow> string \<Rightarrow> response"

definition ok :: "nat \<Rightarrow> bool" where
  "ok st \<longleftrightarrow> 200 \<le> st \<and> st \<le> 299"

definition nullRead :: "string \<Rightarrow> string" where
  \<comment> \<open>The message of the \<open>TypeError\<close> raised by reading a field of \<open>null\<close>, in the
      wording of V8.\<close>
  "nullRead field = ''Cannot read properties of null (reading '' @ [CHR 0x27] @ field
                    @ [CHR 0x27] @ '')''"

record WordpressSite =
  ws_id :: string
  ws_name :: string
  url :: string
  username :: string
  appPassword :: string

definition hexDigit :: "nat \<Rightarrow> char" where
  "hexDigit d = (if d < 10 then char_of (48 + d) else char_of (55 + d))"

definition percentByte :: "nat \<Rightarrow> string" where
  "percentByte b = [CHR ''%'', hexDigit (b div 16), hexDigit (b mod 16)]"

definition isUriUnreserved :: "char \<Rightarrow> bool" where
  "isUriUnreserved c \<longleftrightarrow>
     c \<in> set (''ABCDEFGHIJKLMNOPQRSTUVWXYZabcdefghijklmnopqrstuvwxyz0123456789''
              @ [CHR ''-'', CHR ''_'', CHR ''.'', CHR ''!'', CHR ''~'', CHR ''*'', CHR 0x27,
                 CHR ''('', CHR '')''])"

definition encodeChar :: "char \<Rightarrow> string" where
  \<comment> \<open>A code unit below 128 is one UTF-8 byte, one from 128 to 255 is two.\<close>
  "encodeChar c =
     (let n = (of_char c :: nat) in
      if isUriUnreserved c then [c]
      else if n < 128 then percentByte n
      else percentByte (192 + n div 64) @ percentByte (128 + n mod 64))"

definition encodeURIComponent :: "string \<Rightarrow> string" where
  "encodeURIComponent s = concat (map encodeChar s)"

subsection \<open>The generic request with four strategies\<close>

definition accessDenied :: "string \<Rightarrow> string" where
  "accessDenied label =
     ''Erro 401/403: Acesso Negado em '' @ label @ ''. Verifique Usu'' @ [CHR 0xE1]
     @ ''rio e Senha.''"

definition tryStrategy ::
  "net \<Rightarrow> nat \<Rightarrow> string \<Rightarrow> string \<Rightarrow> string + WpJson option" where
  "tryStrategy nw n label u =
     (let attempt =
        (case nw n u of
           NetworkFailure m \<Rightarrow> Inl m
         | HttpResponse st js \<Rightarrow>
             if ok st then js
             else if st = 401 \<or> st = 403 then Inl ''AUTH_ERROR''
             else Inl (''Status '' @ stringOfNat st))
      in case attempt of
           Inr v \<Rightarrow> Inr v
         | Inl m \<Rightarrow> if m = ''AUTH_ERROR'' then Inl (accessDenied label) else Inl m)"

definition label1 :: string where "label1 = ''Strategy 1 (Direct Standard)''"
definition label2 :: string where "label2 = ''Strategy 2 (Direct Fallback)''"
definition label3 :: string where "label3 = ''Strategy 3 (Proxy Standard)''"
definition label4 :: string where "label4 = ''Strategy 4 (Proxy Fallback)''"

definition labels :: "string list" where
  "labels = [label1, label2, label3, label4]"

definition standardUrl :: "string \<Rightarrow> string \<Rightarrow> string" where
  "standardUrl baseUrl endpointPath = baseUrl @ ''/wp-json/wp/v2'' @ endpointPath"

definition fallbackUrl :: "string \<Rightarrow> string \<Rightarrow> string" where
  "fallbackUrl baseUrl endpointPath = baseUrl @ ''/?rest_route=/wp/v2'' @ endpointPath"

definition proxyUrl :: "string \<Rightarrow> string" where
  "proxyUrl target = ''https://corsproxy.io/?'' @ encodeURIComponent target"

definition ind12 :: string where
  "ind12 = replicate 12 (CHR 0x20)"

definition criticalFailure :: "string \<Rightarrow> string" where
  "criticalFailure baseUrl =
     ''FALHA CR'' @ [CHR 0xCD] @ ''TICA (CORS/502): N'' @ [CHR 0xE3] @ ''o foi poss''
     @ [CHR 0xED] @ ''vel conectar ao site '' @ baseUrl @ ''.'' @ [CHR 0x0A]
     @ ind12 @ [CHR 0x0A]
     @ ind12 @ ''Poss'' @ [CHR 0xED] @ ''veis causas:'' @ [CHR 0x0A]
     @ ind12 @ ''1. Firewall (Wordfence, Cloudflare) bloqueando a API REST.'' @ [CHR 0x0A]
     @ ind12 @ ''2. Bloqueio de regi'' @ [CHR 0xE3] @ ''o (Geo-block) no servidor.'' @ [CHR 0x0A]
     @ ind12 @ ''3. Permalinks n'' @ [CHR 0xE3] @ ''o configurados corretamente.'' @ [CHR 0x0A]
     @ ind12 @ [CHR 0x0A]
     @ ind12 @ ''Solu'' @ [CHR 0xE7, CHR 0xE3] @ ''o: Tente instalar um plugin de ''
     @ [CHR 0x22] @ ''CORS'' @ [CHR 0x22] @ '' no WordPress ou whitelistar o dom''
     @ [CHR 0xED] @ ''nio.''"

definition allFailed :: "string \<Rightarrow> string \<Rightarrow> string" where
  \<comment> \<open>The message raised when strategy 4 fails: built from \<open>lastError\<close>, which at that
      point is the error of strategy 3.\<close>
  "allFailed baseUrl lastError =
     (let msg = (if lastError \<noteq> [] then lastError else ''Falha na conex'' @ [CHR 0xE3] @ ''o.'')
      in if includesStr msg ''Failed to fetch'' \<or> includesStr msg ''502''
         then criticalFailure baseUrl else msg)"

definition fetchWpWithFallback ::
  "net \<Rightarrow> nat \<Rightarrow> WordpressSite \<Rightarrow> string \<Rightarrow> (string + WpJson option) \<times> string list" where
  "fetchWpWithFallback nw n site endpointPath =
     (let baseUrl = cleanWpUrl (url site);
          u1 = standardUrl baseUrl endpointPath;
          u2 = fallbackUrl baseUrl endpointPath;
          u3 = proxyUrl (standardUrl baseUrl endpointPath);
          u4 = proxyUrl (fallbackUrl baseUrl endpointPath)
      in case tryStrategy nw n label1 u1 of
           Inr v \<Rightarrow> (Inr v, [u1])
         | Inl e1 \<Rightarrow>
             if includesStr e1 ''Acesso Negado'' then (Inl e1, [u1])
             else case tryStrategy nw (n + 1) label2 u2 of
               Inr v \<Rightarrow> (Inr v, [u1, u2])
             | Inl e2 \<Rightarrow>
                 if includesStr e2 ''Acesso Negado'' then (Inl e2, [u1, u2])
                 else case tryStrategy nw (n + 2) label3 u3 of
                   Inr v \<Rightarrow> (Inr v, [u1, u2, u3])
                 | Inl e3 \<Rightarrow>
                     if includesStr e3 ''Acesso Negado'' then (Inl e3, [u1, u2, u3])
                     else case tryStrategy nw (n + 3) label4 u4 of
                       Inr v \<Rightarrow> (Inr v, [u1, u2, u3, u4])
                     | Inl e4 \<Rightarrow>
                         if includesStr e4 ''Acesso Negado'' then (Inl e4, [u1, u2, u3, u4])
                         else (Inl (allFailed baseUrl e3), [u1, u2, u3, u4]))"

subsection \<open>The binary media upload\<close>

record File =
  file_name :: string
  file_type :: string

definition tryUpload :: "net \<Rightarrow> nat \<Rightarrow> string \<Rightarrow> bool \<Rightarrow> string + WpJson option" where
  "tryUpload nw n u useProxy =
     (let finalUrl = (if useProxy then proxyUrl u else u) in
      case nw n finalUrl of
        NetworkFailure m \<Rightarrow> Inl m
      | HttpResponse st js \<Rightarrow>
          if \<not> ok st then (if st = 401 then Inl ''AUTH_ERROR'' else Inl (''Status '' @ stringOfNat st))
          else js)"

definition uploadedId :: "net \<Rightarrow> nat \<Rightarrow> string \<Rightarrow> bool \<Rightarrow> string + nat option" where
  \<comment> \<open>\<open>const data = await tryUpload(url, useProxy); return data.id;\<close> inside its
      \<open>try\<close>: the identifier, or the message of what was thrown.\<close>
  "uploadedId nw n u useProxy =
     (case tryUpload nw n u useProxy of
        Inl e \<Rightarrow> Inl e
      | Inr None \<Rightarrow> Inl (nullRead ''id'')
      | Inr (Some data) \<Rightarrow> Inr (json_id data))"

definition uploadAuthError :: string where
  "uploadAuthError = ''Erro de Autentica'' @ [CHR 0xE7, CHR 0xE3] @ ''o ao enviar imagem.''"

definition uploadAllFailed :: string where
  "uploadAllFailed =
     ''Falha ao enviar imagem (Todas as estrat'' @ [CHR 0xE9] @ ''gias falharam).''"

definition uploadWpMedia ::
  "net \<Rightarrow> nat \<Rightarrow> WordpressSite \<Rightarrow> File \<Rightarrow> (string + nat option) \<times> string list" where
  "uploadWpMedia nw n site file =
     (let baseUrl = cleanWpUrl (url site);
          m1 = baseUrl @ ''/wp-json/wp/v2/media'';
          m2 = baseUrl @ ''/?rest_route=/wp/v2/media''
      in case uploadedId nw n m1 False of
           Inr i \<Rightarrow> (Inr i, [m1])
         | Inl e \<Rightarrow>
             if e = ''AUTH_ERROR'' then (Inl uploadAuthError, [m1])
             else case uploadedId nw (n + 1) m2 False of
               Inr i \<Rightarrow> (Inr i, [m1, m2])
             | Inl e2 \<Rightarrow>
                 (case uploadedId nw (n + 2) m1 True of
                    Inr i \<Rightarrow> (Inr i, [m1, m2, proxyUrl m1])
                  | Inl e3 \<Rightarrow>
                      (case uploadedId nw (n + 3) m2 True of
                         Inr i \<Rightarrow> (Inr i, [m1, m2, proxyUrl m1, proxyUrl m2])
                       | Inl e4 \<Rightarrow>
                           (Inl uploadAllFailed, [m1, m2, proxyUrl m1, proxyUrl m2]))))"

subsection \<open>Post creation\<close>

definition postFailed :: string where
  "postFailed = ''Falha ao enviar post para o WordPress.''"

definition createWpPost ::
  "net \<Rightarrow> nat \<Rightarrow> WordpressSite \<Rightarrow> (string + WpJson option) \<times> string list" where
  \<comment> \<open>The request body (title, converted content, slug and the optional fields) is not
      visible to the network oracle and is left out.\<close>
  "createWpPost nw n site =
     (case fetchWpWithFallback nw n site ''/posts'' of
        (Inr d, calls) \<Rightarrow> (Inr d, calls)
      | (Inl e, calls) \<Rightarrow> (Inl (if e \<noteq> [] then e else postFailed), calls))"

section \<open>Generation Client (services/gemini.ts)\<close>

text \<open>
  A thrown value is kept as its \<open>message\<close> and the text of its \<open>toString()\<close>; an
  empty message stands for a missing one. The provider is an oracle: the \<open>n\<close>-th request
  of a call, made with a given key, either throws or answers with a text (empty when the
  answer carries none). The stored key list is what \<open>JSON.parse\<close> yields when it is an
  array of strings, and \<open>None\<close> when the entry is absent, not JSON or not an array.
\<close>

record Thrown =
  message :: string
  toString :: string

type_synonym provider = "nat \<Rightarrow> string \<Rightarrow> Thrown + string"

definition getAvailableApiKeys :: "string list option \<Rightarrow> string option \<Rightarrow> string list" where
  "getAvailableApiKeys stored envKey =
     (let keys = (case stored of Some parsed \<Rightarrow> parsed | None \<Rightarrow> []);
          keys = (case envKey of
                    Some k \<Rightarrow> if k \<noteq> [] \<and> k \<notin> set keys then keys @ [k] else keys
                  | None \<Rightarrow> keys)
      in filter (\<lambda>k. k \<noteq> [] \<and> length (trim k) > 0) keys)"

definition noKeyMessage :: string where
  "noKeyMessage =
     ''Nenhuma chave API do Gemini encontrada. Configure nas Configura'' @ [CHR 0xE7, CHR 0xF5]
     @ ''es ou no arquivo .env''"

definition emptyResponse :: Thrown where
  "emptyResponse = \<lparr> message = ''API retornou resposta vazia.'',
                      toString = ''Error: API retornou resposta vazia.'' \<rparr>"

definition attempt :: "provider \<Rightarrow> nat \<Rightarrow> string \<Rightarrow> Thrown + string" where
  \<comment> \<open>The body of the \<open>try\<close> block for one key.\<close>
  "attempt pr n apiKey =
     (case pr n apiKey of
        Inl e \<Rightarrow> Inl e
      | Inr text \<Rightarrow> if text = [] then Inl emptyResponse else Inr text)"

fun rotation ::
  "provider \<Rightarrow> nat \<Rightarrow> string list \<Rightarrow> Thrown option \<Rightarrow> (Thrown option + string) \<times> string list" where
  \<comment> \<open>The \<open>for\<close> loop over the keys: \<open>lastError\<close> is threaded through, the second
      component lists the keys a request was made with.\<close>
  "rotation pr n [] lastError = (Inl lastError, [])"
| "rotation pr n (apiKey # rest) lastError =
     (case attempt pr n apiKey of
        Inr text \<Rightarrow> (Inr text, [apiKey])
      | Inl e \<Rightarrow>
          (case rotation pr (Suc n) rest (Some e) of (r, tried) \<Rightarrow> (r, apiKey # tried)))"

definition finalErrorMsg :: "Thrown option \<Rightarrow> string" where
  "finalErrorMsg lastError =
     (case lastError of
        None \<Rightarrow> ''Todas as chaves API falharam.''
      | Some e \<Rightarrow>
          if message e \<noteq> [] then message e
          else if toString e \<noteq> [] then toString e
          else ''Todas as chaves API falharam.'')"

definition generateGuestPostContent ::
  "string list option \<Rightarrow> string option \<Rightarrow> provider \<Rightarrow> (string + string) \<times> string list" where
  "generateGuestPostContent stored envKey pr =
     (let apiKeys = getAvailableApiKeys stored envKey in
      if apiKeys = [] then (Inl noKeyMessage, [])
      else case rotation pr 0 apiKeys None of
             (Inr text, tried) \<Rightarrow> (Inr text, tried)
           | (Inl lastError, tried) \<Rightarrow> (Inl (finalErrorMsg lastError), tried))"

section \<open>Batch Queue Engine (App.tsx)\<close>

subsection \<open>Data\<close>

record GuestPostRequest =
  req_id :: string
  keyword :: string
  hostNiche :: string
  targetLink :: string
  anchorText :: string
  targetNiche :: string

datatype QueueStatus = Pending | Processing | Done | Failed

record QueueItem =
  item_id :: string
  request :: GuestPostRequest
  rowIndex :: nat
  sheetId :: string
  item_status :: QueueStatus

record BatchProgress =
  isActive :: bool
  total :: nat
  processed :: nat
  currentKeyword :: string
  logs :: "string list"

datatype ArticleStatus = ArticlePending | Completed | ArticleFailed

record GeneratedArticle =
  art_id :: string
  requestId :: string
  title :: string
  content :: string
  createdAt :: nat
  art_status :: ArticleStatus
  driveUrl :: string
  driveId :: string

datatype AppMode = SINGLE | HISTORY | SETTINGS | WORDPRESS | BULK_PUBLISH

text \<open>The component state read or written by the batch code, one field per \<open>useState\<close>.\<close>

record AppState =
  mode :: AppMode
  articles :: "GeneratedArticle list"
  notification :: "(string \<times> string) option"
  isDemoMode :: bool
  bulkImportData :: "(string \<times> string list list \<times> string) option"
  queue :: "QueueItem list"
  isProcessingBatch :: bool
  batchToken :: "string option"
  batchProgress :: BatchProgress

definition DEMO_ROWS :: "string list list" where
  "DEMO_ROWS =
     [[''Import'' @ [CHR 0xE2] @ ''ncia do Yoga no Trabalho'', ''Blog de RH e Carreira'',
       ''https://lojasports.com/kits-yoga'', ''kits de yoga corporativo'',
       ''E-commerce Esportivo''],
      [''Estrat'' @ [CHR 0xE9] @ ''gias de Marketing Digital 2024'', ''Portal de Tecnologia'',
       ''https://agenciaxyz.com/seo'', ''consultoria de SEO'',
       ''Ag'' @ [CHR 0xEA] @ ''ncia de Marketing''],
      [''Dicas de Alimenta'' @ [CHR 0xE7, CHR 0xE3] @ ''o Saud'' @ [CHR 0xE1] @ ''vel'',
       ''Revista Vida Leve'', ''https://nutriapp.com'',
       ''app de nutri'' @ [CHR 0xE7, CHR 0xE3] @ ''o'', ''Aplicativo Mobile'']]"

subsection \<open>Import: rows to queue items\<close>

definition cell :: "string list \<Rightarrow> nat \<Rightarrow> string" where
  \<comment> \<open>\<open>row[i]\<close>; a missing cell is \<open>undefined\<close>, which is falsy like the empty string.\<close>
  "cell row i = (if i < length row then row ! i else [])"

definition orElse :: "string \<Rightarrow> string \<Rightarrow> string" where
  \<comment> \<open>\<open>a || b\<close> on strings\<close>
  "orElse a b = (if a \<noteq> [] then a else b)"

fun rowsToQueue ::
  "(nat \<Rightarrow> string) \<Rightarrow> string \<Rightarrow> nat \<Rightarrow> nat \<Rightarrow> string list list \<Rightarrow> QueueItem list" where
  \<comment> \<open>The \<open>forEach\<close> of \<open>handleSheetImport\<close>: \<open>index\<close> is the position of the row in
      the imported array, \<open>k\<close> counts the calls of \<open>generateId\<close>, whose results are
      \<open>genId 0\<close>, \<open>genId 1\<close>, ...\<close>
  "rowsToQueue genId sid index k [] = []"
| "rowsToQueue genId sid index k (row # rows) =
     (if cell row 0 = [] then rowsToQueue genId sid (Suc index) k rows
      else \<lparr> item_id = genId (Suc k),
             request = \<lparr> req_id = genId k, keyword = cell row 0,
                         hostNiche = orElse (cell row 1) ''Geral'',
                         targetLink = orElse (cell row 2) ''#'',
                         anchorText = orElse (cell row 3) ''link'',
                         targetNiche = orElse (cell row 4) ''Geral'' \<rparr>,
             rowIndex = index, sheetId = sid, item_status = Pending \<rparr>
           # rowsToQueue genId sid (Suc index) (k + 2) rows)"

definition handleSheetImport ::
  "(nat \<Rightarrow> string) \<Rightarrow> string \<Rightarrow> string list list \<Rightarrow> string \<Rightarrow> AppState \<Rightarrow> AppState" where
  "handleSheetImport genId sid rows token s =
     (if mode s = BULK_PUBLISH then
        s\<lparr> bulkImportData := Some (sid, rows, token),
           notification := Some (''Dados importados! Revisando...'', ''success'') \<rparr>
      else
        let rowsToProcess = (if isDemoMode s then DEMO_ROWS else rows);
            newQueue = rowsToQueue genId sid 0 0 rowsToProcess
        in if newQueue = [] then
             s\<lparr> notification :=
                  Some (''Nenhuma linha v'' @ [CHR 0xE1] @ ''lida encontrada para processar.'',
                        ''error'') \<rparr>
           else
             s\<lparr> batchToken := Some token,
                queue := newQueue,
                batchProgress :=
                  \<lparr> isActive = True, total = length newQueue, processed = 0,
                    currentKeyword = [],
                    logs = [''Importado '' @ stringOfNat (length newQueue)
                            @ '' linhas. Iniciando fila...''] \<rparr>,
                notification := Some (''Processamento iniciado em segundo plano!'', ''success'') \<rparr>)"

subsection \<open>The consumer\<close>

text \<open>
  \<open>processNextItem\<close> is an asynchronous function. Its synchronous head checks the guard,
  raises the in-flight flag and picks the head of the queue; what it goes on to do uses the
  values its closure captured at that moment (the queue, the demo flag and the token of
  that render). The head is \<open>processNextItem\<close>, which yields the captured values as a
  \<open>Task\<close>; the rest, up to the end of the \<open>finally\<close> block, is \<open>finishTask\<close>, applied to
  the state as it is when the job ends: the log lines and the history entry a job writes
  while it runs are applied there, together with the updates of its \<open>finally\<close> block.
  What the outside world answers to one job is a \<open>JobWorld\<close>; the title regular
  expressions and the identifier and clock reads are answers of that kind.
\<close>

record Task =
  t_item :: QueueItem
  t_queue :: "QueueItem list"
  t_isDemoMode :: bool
  t_batchToken :: "string option"

record JobWorld =
  generated :: "string + string"
  titleMatch :: "string option"
  uploaded :: "string + (string \<times> string)"
  sheetResponseOk :: bool
  newId :: string
  now :: nat

datatype effect =
    Delay nat
  | Generate GuestPostRequest
  | DriveUpload string string
  | SheetWrite SheetPut

definition addLog :: "string \<Rightarrow> BatchProgress \<Rightarrow> BatchProgress" where
  "addLog msg prev = prev\<lparr> logs := logs prev @ [msg] \<rparr>"

definition processNextItem :: "AppState \<Rightarrow> (Task \<times> AppState) option" where
  "processNextItem s =
     (case queue s of
        [] \<Rightarrow> None
      | item # _ \<Rightarrow>
          if isProcessingBatch s then None
          else Some
            (\<lparr> t_item = item, t_queue = queue s, t_isDemoMode = isDemoMode s,
               t_batchToken = batchToken s \<rparr>,
             s\<lparr> isProcessingBatch := True,
                batchProgress :=
                  addLog (''Iniciando: '' @ keyword (request item))
                    ((batchProgress s)\<lparr> isActive := True,
                                        currentKeyword := keyword (request item) \<rparr>) \<rparr>))"

fun removeStars :: "string \<Rightarrow> string" where
  \<comment> \<open>\<open>t.replace(/\*\*/g, '')\<close>\<close>
  "removeStars (a # b # cs) =
     (if a = CHR ''*'' \<and> b = CHR ''*'' then removeStars cs else a # removeStars (b # cs))"
| "removeStars cs = cs"

fun afterFirst :: "string \<Rightarrow> string \<Rightarrow> string" where
  "afterFirst sep [] = []"
| "afterFirst sep (c # cs) =
     (if prefix sep (c # cs) then drop (length sep) (c # cs) else afterFirst sep cs)"

fun beforeFirst :: "string \<Rightarrow> string \<Rightarrow> string" where
  "beforeFirst sep [] = []"
| "beforeFirst sep (c # cs) = (if prefix sep (c # cs) then [] else c # beforeFirst sep cs)"

definition cleanErrorMsg :: "string \<Rightarrow> string" where
  \<comment> \<open>\<open>error.message || "Erro desconhecido"\<close>, then the second piece of
      \<open>split('GoogleGenAIError:')\<close>, trimmed, when the marker occurs.\<close>
  "cleanErrorMsg m =
     (let errorMsg = orElse m ''Erro desconhecido'' in
      if includesStr errorMsg ''GoogleGenAIError:''
      then trim (beforeFirst ''GoogleGenAIError:'' (afterFirst ''GoogleGenAIError:'' errorMsg))
      else errorMsg)"

definition quoted :: "string \<Rightarrow> string" where
  "quoted k = [CHR 0x22] @ k @ [CHR 0x22]"

definition errorLog :: "QueueItem \<Rightarrow> string \<Rightarrow> string" where
  "errorLog item m = ''Erro em '' @ quoted (keyword (request item)) @ '': '' @ cleanErrorMsg m"

definition successLog :: "QueueItem \<Rightarrow> string" where
  "successLog item =
     ''Sucesso: '' @ quoted (keyword (request item)) @ '' - Link salvo na planilha.''"

definition newArticle ::
  "QueueItem \<Rightarrow> JobWorld \<Rightarrow> string \<Rightarrow> string \<Rightarrow> string \<Rightarrow> string \<Rightarrow> GeneratedArticle" where
  "newArticle item w ttl cnt dUrl dId =
     \<lparr> art_id = newId w, requestId = req_id (request item), title = ttl, content = cnt,
       createdAt = now w, art_status = Completed, driveUrl = dUrl, driveId = dId \<rparr>"

definition tryBlock ::
  "Task \<Rightarrow> JobWorld \<Rightarrow> (string + GeneratedArticle) \<times> string list \<times> effect list" where
  \<comment> \<open>The \<open>try\<close> block after its first log line: the error message or the article, the
      log lines in the order written, and the outside calls and waits in the order made.\<close>
  "tryBlock t w =
     (let item = t_item t; kw = keyword (request item) in
      if t_isDemoMode t then
        (Inr (newArticle item w kw
                (''# '' @ kw @ '' (Demo)'' @ [CHR 0x0A, CHR 0x0A] @ ''Conte'' @ [CHR 0xFA]
                 @ ''do gerado automaticamente...'')
                ''https://docs.google.com/demo-link'' ''demo-id''),
         [''Artigo gerado. Salvando...'', successLog item],
         [Delay 1500, Delay 1000])
      else
        case generated w of
          Inl m \<Rightarrow> (Inl m, [], [Generate (request item)])
        | Inr cnt \<Rightarrow>
            let ttl = (case titleMatch w of Some m \<Rightarrow> removeStars m | None \<Rightarrow> kw) in
            (case t_batchToken t of
               None \<Rightarrow>
                 (Inl (''Token de autentica'' @ [CHR 0xE7, CHR 0xE3] @ ''o perdido.''),
                  [''Artigo gerado. Salvando...''], [Generate (request item)])
             | Some tok \<Rightarrow>
                 if tok = [] then
                   (Inl (''Token de autentica'' @ [CHR 0xE7, CHR 0xE3] @ ''o perdido.''),
                    [''Artigo gerado. Salvando...''], [Generate (request item)])
                 else
                   (case uploaded w of
                      Inl m \<Rightarrow>
                        (Inl m, [''Artigo gerado. Salvando...''],
                         [Generate (request item), DriveUpload tok ttl])
                    | Inr (link, did) \<Rightarrow>
                        let put = updateSheetCellRequest tok (sheetId item) (rowIndex item)
                                    link None
                        in (case updateSheetCell tok (sheetId item) (rowIndex item) link None
                                   (sheetResponseOk w) of
                              Inl m \<Rightarrow>
                                (Inl m, [''Artigo gerado. Salvando...'', ''Atualizando planilha...''],
                                 [Generate (request item), DriveUpload tok ttl, SheetWrite put])
                            | Inr _ \<Rightarrow>
                                (Inr (newArticle item w ttl cnt link did),
                                 [''Artigo gerado. Salvando...'', ''Atualizando planilha...'',
                                  successLog item],
                                 [Generate (request item), DriveUpload tok ttl,
                                  SheetWrite put])))))"

definition coolDown :: "Task \<Rightarrow> effect list" where
  \<comment> \<open>\<open>if (!isDemoMode && queue.length > 1) await delay(3000)\<close>\<close>
  "coolDown t = (if \<not> t_isDemoMode t \<and> length (t_queue t) > 1 then [Delay 3000] else [])"

definition finishTask :: "Task \<Rightarrow> JobWorld \<Rightarrow> AppState \<Rightarrow> AppState \<times> effect list" where
  "finishTask t w s =
     (case tryBlock t w of
        (res, lines, effs) \<Rightarrow>
          let lines' = (case res of Inl m \<Rightarrow> lines @ [errorLog (t_item t) m] | Inr _ \<Rightarrow> lines);
              arts = (case res of Inl _ \<Rightarrow> articles s | Inr a \<Rightarrow> a # articles s);
              prog = fold addLog lines' (batchProgress s)
          in (s\<lparr> articles := arts,
                 queue := tl (queue s),
                 batchProgress := prog\<lparr> processed := processed prog + 1 \<rparr>,
                 isProcessingBatch := False \<rparr>,
              effs @ coolDown t))"

text \<open>
  The effect that calls \<open>processNextItem\<close> runs again after every change of the queue or of
  the flag. With nothing else happening in between, this is a loop: start the head job, finish
  it, start the next. It returns the jobs in the order they were started, each with its
  outside calls and waits, and the final state. \<open>world\<close> gives the answers each job gets.
\<close>

function consumerLoop ::
  "(QueueItem \<Rightarrow> JobWorld) \<Rightarrow> AppState \<Rightarrow> (QueueItem \<times> effect list) list \<times> AppState" where
  "consumerLoop world s =
     (case processNextItem s of
        None \<Rightarrow> ([], s)
      | Some (t, s1) \<Rightarrow>
          (case consumerLoop world (fst (finishTask t (world (t_item t)) s1)) of
             (tr, s3) \<Rightarrow> ((t_item t, snd (finishTask t (world (t_item t)) s1)) # tr, s3)))"
  by pat_completeness auto
termination
  by (relation "measure (\<lambda>(world, s). length (queue s))")
     (auto simp: processNextItem_def finishTask_def Let_def split: list.splits if_splits prod.splits)

declare consumerLoop.simps [simp del]

subsection \<open>The engine as a transition system\<close>

text \<open>
  Everything that can happen to the engine, in any order: an import, a run of the effect
  (a call of \<open>processNextItem\<close>), the end of a job that was started, the progress panel
  being closed, and changes of the demo flag, the mode and the history. The second
  component lists the jobs that were started and have not ended: the jobs in flight.
\<close>

definition initialState :: "GeneratedArticle list \<Rightarrow> AppState" where
  "initialState saved =
     \<lparr> mode = SINGLE, articles = saved, notification = None, isDemoMode = False,
       bulkImportData = None, queue = [], isProcessingBatch = False, batchToken = None,
       batchProgress = \<lparr> isActive = False, total = 0, processed = 0, currentKeyword = [],
                         logs = [] \<rparr> \<rparr>"

definition closePanel :: "AppState \<Rightarrow> AppState" where
  "closePanel s =
     s\<lparr> batchProgress :=
          (batchProgress s)\<lparr> isActive := False, processed := 0, total := 0, logs := [] \<rparr> \<rparr>"

inductive reachable :: "AppState \<Rightarrow> Task list \<Rightarrow> bool" where
  start: "reachable (initialState saved) []"
| import: "reachable s ts \<Longrightarrow> reachable (handleSheetImport genId sid rows token s) ts"
| invoke: "reachable s ts \<Longrightarrow> processNextItem s = Some (t, s') \<Longrightarrow> reachable s' (ts @ [t])"
| idle_call: "reachable s ts \<Longrightarrow> processNextItem s = None \<Longrightarrow> reachable s ts"
| complete: "reachable s ts \<Longrightarrow> t \<in> set ts \<Longrightarrow>
             reachable (fst (finishTask t w s)) (remove1 t ts)"
| close: "reachable s ts \<Longrightarrow> reachable (closePanel s) ts"
| set_demo: "reachable s ts \<Longrightarrow> reachable (s\<lparr> isDemoMode := b \<rparr>) ts"
| set_mode: "reachable s ts \<Longrightarrow> reachable (s\<lparr> mode := m, bulkImportData := None \<rparr>) ts"
| set_articles: "reachable s ts \<Longrightarrow> reachable (s\<lparr> articles := arts \<rparr>) ts"

section \<open>Publish Orchestrator (components/BulkPostManager.tsx)\<close>

datatype DraftStatus = Idle | LoadingDoc | Publishing | Success | Error

record BulkPostDraft =
  d_id :: string
  sheetRowIndex :: nat
  d_keyword :: string
  originalDocUrl :: string
  siteUrlFromSheet :: string
  d_title :: string
  d_content :: string
  matchedSiteId :: string
  slug :: string
  metaDesc :: string
  image :: "File option"
  imagePreview :: string
  categoryId :: string
  d_status :: DraftStatus
  errorMsg :: string
  publishedLink :: "string option"

definition updateDraft ::
  "string \<Rightarrow> (BulkPostDraft \<Rightarrow> BulkPostDraft) \<Rightarrow> BulkPostDraft list \<Rightarrow> BulkPostDraft list" where
  "updateDraft i updates prev = map (\<lambda>d. if d_id d = i then updates d else d) prev"

definition uploadIfAttached ::
  "net \<Rightarrow> WordpressSite \<Rightarrow> BulkPostDraft \<Rightarrow> (string + nat option) \<times> string list" where
  \<comment> \<open>\<open>let mediaId = undefined; if (draft.image) mediaId = await uploadWpMedia(...)\<close>\<close>
  "uploadIfAttached nw site draft =
     (case image draft of
        None \<Rightarrow> (Inr None, [])
      | Some file \<Rightarrow> uploadWpMedia nw 0 site file)"

definition publishDisabled :: "BulkPostDraft \<Rightarrow> bool" where
  \<comment> \<open>The \<open>disabled\<close> attribute of the button that calls \<open>handlePublish\<close>.\<close>
  "publishDisabled d \<longleftrightarrow>
     d_status d = Publishing \<or> d_status d = Success \<or> matchedSiteId d = []
     \<or> d_status d = LoadingDoc"

definition handlePublish ::
  "net \<Rightarrow> string \<Rightarrow> WordpressSite list \<Rightarrow> BulkPostDraft list
     \<Rightarrow> BulkPostDraft list \<times> string list \<times> string list" where
  \<comment> \<open>Returns the drafts after the call, the URLs requested in order, and the alerts shown.\<close>
  "handlePublish nw i sites drafts =
     (case find (\<lambda>d. d_id d = i) drafts of
        None \<Rightarrow> (drafts, [], [])
      | Some draft \<Rightarrow>
          if matchedSiteId draft = [] then (drafts, [], [''Selecione um site primeiro.''])
          else case find (\<lambda>s. ws_id s = matchedSiteId draft) sites of
            None \<Rightarrow> (drafts, [], [])
          | Some site \<Rightarrow>
              let drafts1 = updateDraft i (\<lambda>d. d\<lparr> d_status := Publishing, errorMsg := [] \<rparr>) drafts;
                  up = uploadIfAttached nw site draft
              in case fst up of
                   Inl e \<Rightarrow>
                     (updateDraft i (\<lambda>d. d\<lparr> d_status := Error, errorMsg := e \<rparr>) drafts1,
                      snd up, [])
                 | Inr mediaId \<Rightarrow>
                     (case createWpPost nw (length (snd up)) site of
                        (Inl e, calls) \<Rightarrow>
                          (updateDraft i (\<lambda>d. d\<lparr> d_status := Error, errorMsg := e \<rparr>) drafts1,
                           snd up @ calls, [])
                      | (Inr None, calls) \<Rightarrow>
                          (updateDraft i
                             (\<lambda>d. d\<lparr> d_status := Error, errorMsg := nullRead ''link'' \<rparr>)
                             drafts1,
                           snd up @ calls, [])
                      | (Inr (Some result), calls) \<Rightarrow>
                          (updateDraft i
                             (\<lambda>d. d\<lparr> d_status := Success, publishedLink := json_link result \<rparr>)
                             drafts1,
                           snd up @ calls, [])))"

section \<open>Worked inputs\<close>

definition exampleSite :: WordpressSite where
  "exampleSite = \<lparr> ws_id = ''1'', ws_name = ''Blog'', url = ''example.com/wp-admin/'',
                    username = ''editor'', appPassword = ''abcd efgh'' \<rparr>"

definition exampleBody :: WpJson where
  "exampleBody = \<lparr> json_id = Some 7, json_link = Some ''https://example.com/?p=7'' \<rparr>"

definition exampleFile :: File where
  "exampleFile = \<lparr> file_name = ''cover.png'', file_type = ''image/png'' \<rparr>"

definition net404then200 :: net where
  "net404then200 n u =
     (if u = ''https://example.com/wp-json/wp/v2/posts'' then HttpResponse 404 (Inl ''Unexpected token'')
      else HttpResponse 200 (Inr (Some exampleBody)))"

definition net403then200 :: net where
  "net403then200 n u = (if n = 0 then HttpResponse 403 (Inl ''Unexpected token'')
                        else HttpResponse 200 (Inr (Some exampleBody)))"

definition net500then401 :: net where
  "net500then401 n u =
     (if n = 0 then HttpResponse 500 (Inl ''Unexpected token'')
      else if n = 1 then HttpResponse 401 (Inl ''Unexpected token'')
      else HttpResponse 200 (Inr (Some exampleBody)))"

definition exampleRows :: "string list list" where
  "exampleRows = [[''A'', ''Tech''], [], [''B''], [''C'', ''Food'', ''https://c.example'']]"

definition exampleState :: AppState where
  "exampleState = handleSheetImport stringOfNat ''sheet1'' exampleRows ''tok'' (initialState [])"

definition exampleWorld :: "QueueItem \<Rightarrow> JobWorld" where
  "exampleWorld item =
     \<lparr> generated = (if keyword (request item) = ''B'' then Inl ''quota'' else Inr ''# Title''),
       titleMatch = Some ''Title'',
       uploaded = Inr (''https://docs.example/d/1'', ''1''),
       sheetResponseOk = True, newId = ''n1'', now = 0 \<rparr>"

definition itemA :: QueueItem where
  "itemA = \<lparr> item_id = ''1'',
             request = \<lparr> req_id = ''0'', keyword = ''A'', hostNiche = ''Tech'',
                         targetLink = ''#'', anchorText = ''link'', targetNiche = ''Geral'' \<rparr>,
             rowIndex = 0, sheetId = ''sheet1'', item_status = Pending \<rparr>"

definition itemB :: QueueItem where
  "itemB = \<lparr> item_id = ''3'',
             request = \<lparr> req_id = ''2'', keyword = ''B'', hostNiche = ''Geral'',
                         targetLink = ''#'', anchorText = ''link'', targetNiche = ''Geral'' \<rparr>,
             rowIndex = 2, sheetId = ''sheet1'', item_status = Pending \<rparr>"

definition itemC :: QueueItem where
  "itemC = \<lparr> item_id = ''5'',
             request = \<lparr> req_id = ''4'', keyword = ''C'', hostNiche = ''Food'',
                         targetLink = ''https://c.example'', anchorText = ''link'',
                         targetNiche = ''Geral'' \<rparr>,
             rowIndex = 3, sheetId = ''sheet1'', item_status = Pending \<rparr>"

definition taskA :: Task where
  "taskA = \<lparr> t_item = itemA, t_queue = [itemA, itemB, itemC], t_isDemoMode = False,
             t_batchToken = Some ''tok'' \<rparr>"

definition quotaError :: "string \<Rightarrow> Thrown" where
  "quotaError k = \<lparr> message = ''429 quota exceeded for '' @ k,
                     toString = ''Error: 429 quota exceeded for '' @ k \<rparr>"

definition lastKeyWorks :: provider where
  "lastKeyWorks n k = (if k = ''key-c'' then Inr ''# Artigo'' else Inl (quotaError k))"

definition noKeyWorks :: provider where
  "noKeyWorks n k = (if k = ''key-b'' then Inr [] else Inl (quotaError k))"

definition busyState :: AppState where
  \<comment> \<open>The example batch with its first job finished and its second job started.\<close>
  "busyState =
     (case processNextItem exampleState of
        None \<Rightarrow> exampleState
      | Some (t, s1) \<Rightarrow>
          (case processNextItem (fst (finishTask t (exampleWorld (t_item t)) s1)) of
             None \<Rightarrow> exampleState
           | Some (t2, s2) \<Rightarrow> s2))"

definition itemD :: QueueItem where
  "itemD = \<lparr> item_id = ''1'',
             request = \<lparr> req_id = ''0'', keyword = ''D'', hostNiche = ''Geral'',
                         targetLink = ''#'', anchorText = ''link'', targetNiche = ''Geral'' \<rparr>,
             rowIndex = 0, sheetId = ''sheet2'', item_status = Pending \<rparr>"

definition demoState :: AppState where
  "demoState = handleSheetImport stringOfNat ''sheet1'' exampleRows ''tok''
                 ((initialState [])\<lparr> isDemoMode := True \<rparr>)"

definition exampleDraft :: BulkPostDraft where
  "exampleDraft =
     \<lparr> d_id = ''d1'', sheetRowIndex = 0, d_keyword = ''Yoga'', originalDocUrl = [],
       siteUrlFromSheet = ''example.com'', d_title = ''Yoga'', d_content = ''Artigo sobre: Yoga'',
       matchedSiteId = ''1'', slug = ''yoga'', metaDesc = [], image = Some exampleFile,
       imagePreview = ''blob:1'', categoryId = [], d_status = Idle, errorMsg = [],
       publishedLink = None \<rparr>"

definition netDown :: net where
  "netDown n u = HttpResponse 500 (Inl ''Unexpected token'')"

definition netUp :: net where
  "netUp n u = HttpResponse 200 (Inr (Some exampleBody))"

definition netPostDenied :: net where
  "netPostDenied n u = (if n = 0 then HttpResponse 200 (Inr (Some exampleBody))
                        else HttpResponse 401 (Inl ''Unexpected token''))"

definition netPostNull :: net where
  "netPostNull n u = (if n = 0 then HttpResponse 200 (Inr (Some exampleBody))
                      else HttpResponse 200 (Inr None))"

text \<open>
  A batch of one job, and an import of three rows made while that job is in flight.
\<close>

definition soloState :: AppState where
  "soloState = handleSheetImport stringOfNat ''sheet1'' [[''A'', ''Tech'']] ''tok'' (initialState [])"

definition soloTask :: Task where
  "soloTask = \<lparr> t_item = itemA, t_queue = [itemA], t_isDemoMode = False,
                t_batchToken = Some ''tok'' \<rparr>"

definition soloPicked :: AppState where
  \<comment> \<open>The state in which the only job has been started.\<close>
  "soloPicked = (case processNextItem soloState of None \<Rightarrow> soloState | Some (t, s1) \<Rightarrow> s1)"

definition lateImport :: AppState where
  "lateImport = handleSheetImport stringOfNat ''sheet2'' [[''D''], [''E''], [''F'']] ''tok2'' soloPicked"

definition afterSolo :: AppState where
  \<comment> \<open>The state in which the job started before the import has ended.\<close>
  "afterSolo = fst (finishTask soloTask (exampleWorld itemA) lateImport)"

definition itemE :: QueueItem where
  "itemE = \<lparr> item_id = ''3'',
             request = \<lparr> req_id = ''2'', keyword = ''E'', hostNiche = ''Geral'',
                         targetLink = ''#'', anchorText = ''link'', targetNiche = ''Geral'' \<rparr>,
             rowIndex = 1, sheetId = ''sheet2'', item_status = Pending \<rparr>"

definition itemF :: QueueItem where
  "itemF = \<lparr> item_id = ''5'',
             request = \<lparr> req_id = ''4'', keyword = ''F'', hostNiche = ''Geral'',
                         targetLink = ''#'', anchorText = ''link'', targetNiche = ''Geral'' \<rparr>,
             rowIndex = 2, sheetId = ''sheet2'', item_status = Pending \<rparr>"

text \<open>
  The example batch of three jobs, and an import of one row made while its second job is
  in flight.
\<close>

definition afterFirstJob :: AppState where
  \<comment> \<open>The example batch with its first job finished.\<close>
  "afterFirstJob =
     (case processNextItem exampleState of
        None \<Rightarrow> exampleState
      | Some (t, s1) \<Rightarrow> fst (finishTask t (exampleWorld (t_item t)) s1))"

definition taskB :: Task where
  "taskB = \<lparr> t_item = itemB, t_queue = [itemB, itemC], t_isDemoMode = False,
             t_batchToken = Some ''tok'' \<rparr>"

definition shortImport :: AppState where
  "shortImport = handleSheetImport stringOfNat ''sheet2'' [[''D'']] ''tok2'' busyState"

text \<open>A site whose host name begins with the name of the interface root.\<close>

definition hostSite :: WordpressSite where
  "hostSite = \<lparr> ws_id = ''2'', ws_name = ''Docs'', url = ''wp-json.example.com'',
                 username = ''editor'', appPassword = ''abcd efgh'' \<rparr>"

subsection \<open>Predicates used in the statements about the base URL\<close>

definition withProtocol :: "string \<Rightarrow> string" where
  \<comment> \<open>The value of \<open>clean\<close> after the first step of \<open>cleanWpUrl\<close>, for a trimmed input.\<close>
  "withProtocol t = (if \<not> hasProtocol t then ''https://'' @ t else t)"

definition safe6 :: "string \<Rightarrow> bool" where
  \<comment> \<open>At least six characters, and none of the first six starts the text \<open>/w\<close>.\<close>
  "safe6 s \<longleftrightarrow> length s \<ge> 6 \<and> (\<forall>i<6. \<not> prefix ''/w'' (drop i s))"

definition pastedUrl :: string where
  "pastedUrl = ''  example.com/blog/wp-login.php?redirect_to=x ''"

section \<open>Verified properties\<close>

subsection \<open>Strings and numbers\<close>

lemma stringOfNat_404: "stringOfNat 404 = ''404''"
  by code_simp

lemma includesStr_prefix: "prefix sub s \<Longrightarrow> includesStr s sub"
  by (cases s) auto

lemma includesStr_append: "includesStr (a @ sub @ b) sub"
  by (induction a) (auto simp: includesStr_prefix)

lemma cleanWpUrl_example: "cleanWpUrl ''example.com/wp-admin/'' = ''https://example.com''"
  by code_simp

subsection \<open>Spreadsheet writeback\<close>

lemma cellRange_F2: "cellRange ''F'' 0 = ''F2''"
  by code_simp

lemma cellRange_F7: "cellRange ''F'' 5 = ''F7''"
  by code_simp

lemma rowsToQueue_origin:
  "item \<in> set (rowsToQueue genId sid index k rows) \<Longrightarrow>
     index \<le> rowIndex item \<and> rowIndex item < index + length rows
     \<and> sheetId item = sid
     \<and> cell (rows ! (rowIndex item - index)) 0 \<noteq> []
     \<and> keyword (request item) = cell (rows ! (rowIndex item - index)) 0"
proof (induction rows arbitrary: index k)
  case Nil
  then show ?case by simp
next
  case (Cons row rows)
  show ?case
  proof (cases "item \<in> set (rowsToQueue genId sid (Suc index)
                                 (if cell row 0 = [] then k else k + 2) rows)")
    case True
    note ih = Cons.IH[OF True]
    from ih have "Suc index \<le> rowIndex item"
      by simp
    then have eq: "rowIndex item - index = Suc (rowIndex item - Suc index)"
      by arith
    have "(row # rows) ! (rowIndex item - index) = rows ! (rowIndex item - Suc index)"
      by (simp add: eq)
    with ih show ?thesis
      by simp
  next
    case False
    with Cons.prems show ?thesis
      by (auto split: if_splits)
  qed
qed

lemma rowsToQueue_increasing:
  "sorted_wrt (<) (map rowIndex (rowsToQueue genId sid index k rows))"
proof (induction rows arbitrary: index k)
  case Nil
  then show ?case by simp
next
  case (Cons row rows)
  have "index < rowIndex item" if "item \<in> set (rowsToQueue genId sid (Suc index) k' rows)"
    for item k'
    using rowsToQueue_origin[OF that] by simp
  with Cons.IH show ?case by auto
qed

lemma tryBlock_writes:
  "SheetWrite put \<in> set (snd (snd (tryBlock t w))) \<Longrightarrow>
     \<exists>tok link. put = updateSheetCellRequest tok (sheetId (t_item t)) (rowIndex (t_item t)) link None"
  by (auto simp: tryBlock_def Let_def split: if_splits sum.splits option.splits prod.splits)

lemma finishTask_effects:
  "snd (finishTask t w s) = snd (snd (tryBlock t w)) @ coolDown t"
  by (simp add: finishTask_def Let_def split: prod.splits)

lemma finishTask_queue: "queue (fst (finishTask t w s)) = tl (queue s)"
  by (simp add: finishTask_def Let_def split: prod.splits)

lemma processNextItem_Some:
  "processNextItem s = Some (t, s') \<Longrightarrow>
     queue s' = queue s \<and> t_queue t = queue s \<and> queue s \<noteq> [] \<and> t_item t = hd (queue s)
     \<and> t_isDemoMode t = isDemoMode s \<and> t_batchToken t = batchToken s
     \<and> \<not> isProcessingBatch s \<and> isProcessingBatch s'"
  by (auto simp: processNextItem_def split: list.splits if_splits)

lemma coolDown_no_write: "SheetWrite put \<notin> set (coolDown t)"
  by (simp add: coolDown_def)

text \<open>
  C10. The writeback of a job goes to the row the job was made from. The written range is
  the column (F when none is given) followed by the row index plus two: F2 for row index 0,
  F7 for row index 5. A job made by an import carries the position its row had in the
  imported array, together with that row's keyword and the sheet of the import; the only
  sheet write of a job is the one for its own sheet and row index; and the consumer never
  rewrites a queued job: picking a job leaves the queue as it is and finishing one drops
  the head.
\<close>

theorem writeback_targets_source_row:
  "cellRange ''F'' 0 = ''F2'' \<and> cellRange ''F'' 5 = ''F7''
   \<and> put_url (updateSheetCellRequest tok sid r v None)
       = ''https://sheets.googleapis.com/v4/spreadsheets/'' @ sid @ ''/values/'' @ ''F''
         @ stringOfNat (r + 2) @ ''?valueInputOption=USER_ENTERED''
   \<and> (\<forall>item \<in> set (rowsToQueue genId sid 0 0 rows).
         rowIndex item < length rows \<and> sheetId item = sid
         \<and> keyword (request item) = cell (rows ! rowIndex item) 0)
   \<and> sorted_wrt (<) (map rowIndex (rowsToQueue genId sid 0 0 rows))
   \<and> (\<forall>put. SheetWrite put \<in> set (snd (finishTask t w s)) \<longrightarrow>
         (\<exists>tk link. put = updateSheetCellRequest tk (sheetId (t_item t)) (rowIndex (t_item t))
                             link None))
   \<and> (processNextItem s = Some (t, s') \<longrightarrow> queue s' = queue s \<and> t_item t = hd (queue s))
   \<and> queue (fst (finishTask t w s)) = tl (queue s)"
proof -
  have url: "put_url (updateSheetCellRequest tok sid r v None)
       = ''https://sheets.googleapis.com/v4/spreadsheets/'' @ sid @ ''/values/'' @ ''F''
         @ stringOfNat (r + 2) @ ''?valueInputOption=USER_ENTERED''"
    by (simp add: updateSheetCellRequest_def cellRange_def sheetRow_def columnLetterOrDefault_def)
  have origin: "\<forall>item \<in> set (rowsToQueue genId sid 0 0 rows).
         rowIndex item < length rows \<and> sheetId item = sid
         \<and> keyword (request item) = cell (rows ! rowIndex item) 0"
    using rowsToQueue_origin[of _ genId sid 0 0 rows] by auto
  have writes: "\<forall>put. SheetWrite put \<in> set (snd (finishTask t w s)) \<longrightarrow>
         (\<exists>tk link. put = updateSheetCellRequest tk (sheetId (t_item t)) (rowIndex (t_item t))
                             link None)"
    using tryBlock_writes[of _ t w] by (auto simp: finishTask_effects coolDown_no_write)
  have pick: "processNextItem s = Some (t, s') \<longrightarrow> queue s' = queue s \<and> t_item t = hd (queue s)"
    using processNextItem_Some[of s t s'] by blast
  show ?thesis
    using url origin writes pick cellRange_F2 cellRange_F7 rowsToQueue_increasing finishTask_queue
    by blast
qed

lemma exampleQueue: "rowsToQueue stringOfNat ''sheet1'' 0 0 exampleRows = [itemA, itemB, itemC]"
  by code_simp

lemma exampleState_queue: "queue exampleState = [itemA, itemB, itemC]"
  by code_simp

lemma exampleState_pick: "map_option fst (processNextItem exampleState) = Some taskA"
  by code_simp

lemma taskA_effects:
  "snd (finishTask taskA (exampleWorld itemA) exampleState) =
     [Generate (request itemA), DriveUpload ''tok'' ''Title'',
      SheetWrite (updateSheetCellRequest ''tok'' ''sheet1'' 0 ''https://docs.example/d/1'' None),
      Delay 3000]"
  by code_simp

theorem writeback_targets_source_row_witness:
  "itemB \<in> set (rowsToQueue stringOfNat ''sheet1'' 0 0 exampleRows)
   \<and> rowIndex itemB = 2 \<and> rowIndex itemB < length exampleRows
   \<and> keyword (request itemB) = cell (exampleRows ! 2) 0
   \<and> SheetWrite (updateSheetCellRequest ''tok'' ''sheet1'' 0 ''https://docs.example/d/1'' None)
        \<in> set (snd (finishTask taskA (exampleWorld itemA) exampleState))
   \<and> (\<exists>tk link. updateSheetCellRequest ''tok'' ''sheet1'' 0 ''https://docs.example/d/1'' None
                    = updateSheetCellRequest tk (sheetId itemA) (rowIndex itemA) link None)
   \<and> (\<exists>s'. processNextItem exampleState = Some (taskA, s') \<and> queue s' = queue exampleState)"
proof -
  obtain s' where pick: "processNextItem exampleState = Some (taskA, s')"
    using exampleState_pick by (cases "processNextItem exampleState") auto
  note inst = writeback_targets_source_row[of "''tok''" "''sheet1''" 0 "''x''" stringOfNat
      exampleRows taskA "exampleWorld itemA" exampleState s']
  have mem: "itemB \<in> set (rowsToQueue stringOfNat ''sheet1'' 0 0 exampleRows)"
    by (simp add: exampleQueue)
  have row: "rowIndex itemB = 2"
    by (simp add: itemB_def)
  from inst mem have origin: "rowIndex itemB < length exampleRows
      \<and> keyword (request itemB) = cell (exampleRows ! rowIndex itemB) 0"
    by blast
  have wr: "SheetWrite (updateSheetCellRequest ''tok'' ''sheet1'' 0 ''https://docs.example/d/1'' None)
        \<in> set (snd (finishTask taskA (exampleWorld itemA) exampleState))"
    by (simp add: taskA_effects)
  from inst wr have target:
    "\<exists>tk link. updateSheetCellRequest ''tok'' ''sheet1'' 0 ''https://docs.example/d/1'' None
                    = updateSheetCellRequest tk (sheetId (t_item taskA)) (rowIndex (t_item taskA))
                        link None"
    by blast
  from inst pick have same: "queue s' = queue exampleState"
    by blast
  have item: "t_item taskA = itemA"
    by (simp add: taskA_def)
  show ?thesis
    using mem row origin wr target[unfolded item] pick same by auto
qed

subsection \<open>The generic request: classification of responses\<close>

lemma not_ok_404: "\<not> ok 404"
  by (simp add: ok_def)

lemma ok_200: "ok 200"
  by (simp add: ok_def)

lemma tryStrategy_404:
  "nw n u = HttpResponse 404 js \<Longrightarrow> tryStrategy nw n label u = Inl ''Status 404''"
  by (simp add: tryStrategy_def not_ok_404 stringOfNat_404)

lemma tryStrategy_ok:
  "nw n u = HttpResponse st (Inr body) \<Longrightarrow> ok st \<Longrightarrow> tryStrategy nw n label u = Inr body"
  by (simp add: tryStrategy_def)

lemma accessDenied_includes: "includesStr (accessDenied label) ''Acesso Negado''"
proof -
  have "accessDenied label
          = ''Erro 401/403: '' @ ''Acesso Negado''
            @ ('' em '' @ label @ ''. Verifique Usu'' @ [CHR 0xE1] @ ''rio e Senha.'')"
    by (simp add: accessDenied_def)
  then show ?thesis
    using includesStr_append by metis
qed

lemma tryStrategy_auth:
  "nw n u = HttpResponse st js \<Longrightarrow> st = 401 \<or> st = 403 \<Longrightarrow>
     tryStrategy nw n label u = Inl (accessDenied label)"
  by (auto simp: tryStrategy_def ok_def)

lemma fetch_calls_cases:
  "snd (fetchWpWithFallback nw n site ep) \<in>
     {[standardUrl (cleanWpUrl (url site)) ep],
      [standardUrl (cleanWpUrl (url site)) ep, fallbackUrl (cleanWpUrl (url site)) ep],
      [standardUrl (cleanWpUrl (url site)) ep, fallbackUrl (cleanWpUrl (url site)) ep,
       proxyUrl (standardUrl (cleanWpUrl (url site)) ep)],
      [standardUrl (cleanWpUrl (url site)) ep, fallbackUrl (cleanWpUrl (url site)) ep,
       proxyUrl (standardUrl (cleanWpUrl (url site)) ep),
       proxyUrl (fallbackUrl (cleanWpUrl (url site)) ep)]}"
  by (simp add: fetchWpWithFallback_def Let_def split: sum.splits)

text \<open>
  On the generic path a 401 or 403 answer at any strategy ends the request: the error names
  the strategy and no further URL is requested.
\<close>

lemma fetch_auth_terminal:
  assumes k: "k < length (snd (fetchWpWithFallback nw n site ep))"
    and resp: "nw (n + k) (snd (fetchWpWithFallback nw n site ep) ! k) = HttpResponse st js"
    and st: "st = 401 \<or> st = 403"
  shows "fst (fetchWpWithFallback nw n site ep) = Inl (accessDenied (labels ! k))
         \<and> length (snd (fetchWpWithFallback nw n site ep)) = Suc k"
proof -
  let ?b = "cleanWpUrl (url site)"
  let ?u1 = "standardUrl ?b ep" and ?u2 = "fallbackUrl ?b ep"
  let ?u3 = "proxyUrl (standardUrl ?b ep)" and ?u4 = "proxyUrl (fallbackUrl ?b ep)"
  have calls: "snd (fetchWpWithFallback nw n site ep) ! k = [?u1, ?u2, ?u3, ?u4] ! k"
    using k fetch_calls_cases[of nw n site ep] by (auto simp: nth_Cons split: nat.splits)
  have k4: "k < 4"
    using k fetch_calls_cases[of nw n site ep] by auto
  have t: "tryStrategy nw (n + k) lab ([?u1, ?u2, ?u3, ?u4] ! k) = Inl (accessDenied lab)" for lab
    using tryStrategy_auth[where nw = nw and n = "n + k" and label = lab and st = st and js = js]
      resp[unfolded calls] st by blast
  from k4 consider "k = 0" | "k = 1" | "k = 2" | "k = 3" by linarith
  then show ?thesis
  proof cases
    case 1
    with t[of label1] show ?thesis
      by (simp add: fetchWpWithFallback_def Let_def labels_def accessDenied_includes)
  next
    case 2
    with t[of label2] k show ?thesis
      by (auto simp: fetchWpWithFallback_def Let_def labels_def accessDenied_includes
               split: sum.splits if_splits)
  next
    case 3
    with t[of label3] k show ?thesis
      by (auto simp: fetchWpWithFallback_def Let_def labels_def accessDenied_includes
               numeral_2_eq_2 split: sum.splits if_splits)
  next
    case 4
    with t[of label4] k show ?thesis
      by (auto simp: fetchWpWithFallback_def Let_def labels_def accessDenied_includes
               numeral_3_eq_3 split: sum.splits if_splits)
  qed
qed

text \<open>
  C6. A 404 answer to the first strategy does not end the request: the second strategy is
  tried next, at the query-string route. When the second strategy is answered with an ok
  status (200 in particular) and a JSON body, that body is returned and exactly the two
  URLs were requested.
\<close>

theorem tier1_404_falls_through:
  assumes "nw n (standardUrl (cleanWpUrl (url site)) ep) = HttpResponse 404 js"
  shows "take 2 (snd (fetchWpWithFallback nw n site ep))
           = [standardUrl (cleanWpUrl (url site)) ep, fallbackUrl (cleanWpUrl (url site)) ep]
         \<and> (nw (n + 1) (fallbackUrl (cleanWpUrl (url site)) ep) = HttpResponse st (Inr body)
              \<and> ok st \<longrightarrow>
              fetchWpWithFallback nw n site ep
                = (Inr body, [standardUrl (cleanWpUrl (url site)) ep,
                              fallbackUrl (cleanWpUrl (url site)) ep]))"
  using tryStrategy_404[where nw = nw and n = n and js = js and label = label1] assms
    tryStrategy_ok[where nw = nw and n = "Suc n" and st = st and body = body and label = label2]
  by (auto simp: fetchWpWithFallback_def Let_def split: sum.splits)

theorem tier1_404_falls_through_witness:
  "net404then200 0 (standardUrl (cleanWpUrl (url exampleSite)) ''/posts'')
       = HttpResponse 404 (Inl ''Unexpected token'')
   \<and> net404then200 (0 + 1) (fallbackUrl (cleanWpUrl (url exampleSite)) ''/posts'')
       = HttpResponse 200 (Inr (Some exampleBody))
   \<and> ok 200
   \<and> fetchWpWithFallback net404then200 0 exampleSite ''/posts''
       = (Inr (Some exampleBody), [''https://example.com/wp-json/wp/v2/posts'',
                            ''https://example.com/?rest_route=/wp/v2/posts''])"
proof -
  have base: "cleanWpUrl (url exampleSite) = ''https://example.com''"
    by (simp add: exampleSite_def cleanWpUrl_example)
  have r1: "net404then200 0 (standardUrl (cleanWpUrl (url exampleSite)) ''/posts'')
              = HttpResponse 404 (Inl ''Unexpected token'')"
    by (simp add: base net404then200_def standardUrl_def)
  have r2: "net404then200 (0 + 1) (fallbackUrl (cleanWpUrl (url exampleSite)) ''/posts'')
              = HttpResponse 200 (Inr (Some exampleBody))"
    by (simp add: base net404then200_def fallbackUrl_def)
  from tier1_404_falls_through[where nw = net404then200 and n = 0 and site = exampleSite
      and ep = "''/posts''" and js = "Inl ''Unexpected token''" and st = 200
      and body = "Some exampleBody"] r1 r2 ok_200
  have "fetchWpWithFallback net404then200 0 exampleSite ''/posts''
          = (Inr (Some exampleBody), [standardUrl (cleanWpUrl (url exampleSite)) ''/posts'',
                               fallbackUrl (cleanWpUrl (url exampleSite)) ''/posts''])"
    by blast
  then show ?thesis
    using r1 r2 ok_200 by (simp add: base standardUrl_def fallbackUrl_def)
qed

text \<open>
  C3. On the generic path a 401 or 403 answer ends the request at every strategy
  (\<open>fetch_auth_terminal\<close>).
  The media upload does not follow it. A 403 answer to its first strategy is treated like
  any other failure and the second strategy is requested; a 401 answer to its second
  strategy is not looked at and the third strategy is requested. The generic path, given
  the same answers, stops at the first and at the second request.
\<close>

theorem upload_auth_not_terminal:
  "uploadWpMedia net403then200 0 exampleSite exampleFile
     = (Inr (Some 7), [''https://example.com/wp-json/wp/v2/media'',
                       ''https://example.com/?rest_route=/wp/v2/media''])
   \<and> uploadWpMedia net500then401 0 exampleSite exampleFile
     = (Inr (Some 7),
        [''https://example.com/wp-json/wp/v2/media'',
         ''https://example.com/?rest_route=/wp/v2/media'',
         ''https://corsproxy.io/?https%3A%2F%2Fexample.com%2Fwp-json%2Fwp%2Fv2%2Fmedia''])
   \<and> fetchWpWithFallback net403then200 0 exampleSite ''/media''
     = (Inl (accessDenied label1), [''https://example.com/wp-json/wp/v2/media''])
   \<and> fetchWpWithFallback net500then401 0 exampleSite ''/media''
     = (Inl (accessDenied label2), [''https://example.com/wp-json/wp/v2/media'',
                                    ''https://example.com/?rest_route=/wp/v2/media''])"
  by code_simp

subsection \<open>Generation Client: key rotation\<close>

lemma rotation_tried_prefix: "prefix (snd (rotation pr n keys le)) keys"
  by (induction keys arbitrary: n le) (auto simp: case_prod_beta split: sum.splits)

lemma rotation_first_success:
  "i < length keys \<Longrightarrow> \<forall>j<i. isl (attempt pr (n + j) (keys ! j)) \<Longrightarrow>
   attempt pr (n + i) (keys ! i) = Inr text \<Longrightarrow>
   rotation pr n keys le = (Inr text, take (Suc i) keys)"
proof (induction keys arbitrary: n i le)
  case Nil
  then show ?case by simp
next
  case (Cons k keys)
  show ?case
  proof (cases i)
    case 0
    with Cons.prems show ?thesis by simp
  next
    case (Suc i')
    from Cons.prems(2) Suc have first: "isl (attempt pr n k)"
      by (metis add.right_neutral nth_Cons_0 zero_less_Suc)
    have rest: "\<forall>j<i'. isl (attempt pr (Suc n + j) (keys ! j))"
      using Cons.prems(2) Suc by (metis Suc_less_eq add_Suc_shift nth_Cons_Suc)
    have here: "attempt pr (Suc n + i') (keys ! i') = Inr text"
      using Cons.prems(3) Suc by simp
    from Cons.prems(1) Suc have "i' < length keys" by simp
    from Cons.IH[OF this rest here, of "Some (projl (attempt pr n k))"] first Suc
    show ?thesis
      by (auto simp: isl_def)
  qed
qed

lemma rotation_all_fail:
  "\<forall>j<length keys. isl (attempt pr (n + j) (keys ! j)) \<Longrightarrow>
   rotation pr n keys le =
     (Inl (if keys = [] then le
           else Some (projl (attempt pr (n + length keys - 1) (last keys)))), keys)"
proof (induction keys arbitrary: n le)
  case Nil
  then show ?case by simp
next
  case (Cons k keys)
  from Cons.prems have first: "isl (attempt pr n k)"
    by (metis add.right_neutral length_greater_0_conv list.discI nth_Cons_0)
  have rest: "\<forall>j<length keys. isl (attempt pr (Suc n + j) (keys ! j))"
    using Cons.prems by (metis Suc_less_eq add_Suc_shift length_Cons nth_Cons_Suc)
  from Cons.IH[OF rest, of "Some (projl (attempt pr n k))"] first
  show ?case
    by (auto simp: isl_def)
qed

lemma attempt_nonempty: "attempt pr n k = Inr text \<Longrightarrow> text \<noteq> []"
  by (auto simp: attempt_def split: sum.splits if_splits)

lemma getAvailableApiKeys_distinct:
  "(\<forall>parsed. stored = Some parsed \<longrightarrow> distinct parsed) \<Longrightarrow>
     distinct (getAvailableApiKeys stored envKey)"
  by (auto simp: getAvailableApiKeys_def Let_def split: option.splits)

lemma generate_tried_prefix:
  "prefix (snd (generateGuestPostContent stored envKey pr)) (getAvailableApiKeys stored envKey)"
  using rotation_tried_prefix[of pr 0 "getAvailableApiKeys stored envKey" None]
  by (auto simp: generateGuestPostContent_def Let_def split: prod.splits sum.splits)

lemma distinct_prefix: "prefix xs ys \<Longrightarrow> distinct ys \<Longrightarrow> distinct xs"
  by (auto simp: prefix_def)

text \<open>
  C4. With no candidate key the call fails at once with the configuration error and makes
  no request. Otherwise the keys are tried in list order, each position at most once (the
  keys a request was made with form a prefix of the candidate list, free of repetition when
  the stored list is). The first key whose request yields a non-empty text ends the call
  with that text, after one request per key up to that one: when only the last of the keys
  succeeds, every key was requested once. When every key fails, the call raises an error
  carrying the message of the failure of the last key.
\<close>

theorem generation_key_rotation:
  "(let keys = getAvailableApiKeys stored envKey;
        result = generateGuestPostContent stored envKey pr
    in (keys = [] \<longrightarrow> result = (Inl noKeyMessage, []))
       \<and> prefix (snd result) keys
       \<and> ((\<forall>parsed. stored = Some parsed \<longrightarrow> distinct parsed) \<longrightarrow> distinct (snd result))
       \<and> (\<forall>i text. i < length keys \<and> (\<forall>j<i. isl (attempt pr j (keys ! j)))
                     \<and> attempt pr i (keys ! i) = Inr text
             \<longrightarrow> result = (Inr text, take (Suc i) keys) \<and> text \<noteq> []
                 \<and> length (snd result) = Suc i)
       \<and> (keys \<noteq> [] \<and> (\<forall>j<length keys. isl (attempt pr j (keys ! j)))
             \<longrightarrow> (let e = projl (attempt pr (length keys - 1) (last keys))
                  in result = (Inl (finalErrorMsg (Some e)), keys)
                     \<and> (message e \<noteq> [] \<longrightarrow> fst result = Inl (message e)))))"
proof -
  let ?keys = "getAvailableApiKeys stored envKey"
  let ?result = "generateGuestPostContent stored envKey pr"
  have empty: "?keys = [] \<longrightarrow> ?result = (Inl noKeyMessage, [])"
    by (simp add: generateGuestPostContent_def)
  have pre: "prefix (snd ?result) ?keys"
    by (rule generate_tried_prefix)
  have dist: "(\<forall>parsed. stored = Some parsed \<longrightarrow> distinct parsed) \<longrightarrow> distinct (snd ?result)"
    using distinct_prefix[OF pre] getAvailableApiKeys_distinct[of stored envKey] by blast
  have succ: "?result = (Inr tx, take (Suc i) ?keys) \<and> tx \<noteq> []
              \<and> length (snd ?result) = Suc i"
    if "i < length ?keys" "\<forall>j<i. isl (attempt pr j (?keys ! j))"
       "attempt pr i (?keys ! i) = Inr tx" for i tx
  proof -
    from that(1) have ne: "?keys \<noteq> []" by auto
    have "rotation pr 0 ?keys None = (Inr tx, take (Suc i) ?keys)"
      using rotation_first_success[of i ?keys pr 0 tx None] that by simp
    with ne have "?result = (Inr tx, take (Suc i) ?keys)"
      by (simp add: generateGuestPostContent_def Let_def)
    moreover have "tx \<noteq> []"
      using attempt_nonempty[OF that(3)] .
    moreover have "length (take (Suc i) ?keys) = Suc i"
      using that(1) by simp
    ultimately show ?thesis by simp
  qed
  have fail: "?result = (Inl (finalErrorMsg (Some (projl (attempt pr (length ?keys - 1) (last ?keys))))),
                         ?keys)
              \<and> (message (projl (attempt pr (length ?keys - 1) (last ?keys))) \<noteq> [] \<longrightarrow>
                   fst ?result = Inl (message (projl (attempt pr (length ?keys - 1) (last ?keys)))))"
    if "?keys \<noteq> []" "\<forall>j<length ?keys. isl (attempt pr j (?keys ! j))"
  proof -
    have "rotation pr 0 ?keys None
            = (Inl (Some (projl (attempt pr (length ?keys - 1) (last ?keys)))), ?keys)"
      using rotation_all_fail[of ?keys pr 0 None] that by simp
    with that(1) show ?thesis
      by (simp add: generateGuestPostContent_def Let_def finalErrorMsg_def)
  qed
  show ?thesis
    unfolding Let_def using empty pre dist succ fail by blast
qed

lemma keys_abc: "getAvailableApiKeys (Some [''key-a'', ''key-b'']) (Some ''key-c'') = [''key-a'', ''key-b'', ''key-c'']"
  by code_simp

lemma keys_ab: "getAvailableApiKeys (Some [''key-a'', ''key-b'']) (Some ''key-a'') = [''key-a'', ''key-b'']"
  by code_simp

lemma keys_none: "getAvailableApiKeys None None = []"
  by code_simp

theorem generation_key_rotation_witness:
  "getAvailableApiKeys (Some [''key-a'', ''key-b'']) (Some ''key-c'') = [''key-a'', ''key-b'', ''key-c'']
   \<and> isl (attempt lastKeyWorks 0 ''key-a'') \<and> isl (attempt lastKeyWorks 1 ''key-b'')
   \<and> attempt lastKeyWorks 2 ''key-c'' = Inr ''# Artigo''
   \<and> generateGuestPostContent (Some [''key-a'', ''key-b'']) (Some ''key-c'') lastKeyWorks
       = (Inr ''# Artigo'', [''key-a'', ''key-b'', ''key-c''])
   \<and> distinct (snd (generateGuestPostContent (Some [''key-a'', ''key-b'']) (Some ''key-c'') lastKeyWorks))
   \<and> getAvailableApiKeys (Some [''key-a'', ''key-b'']) (Some ''key-a'') = [''key-a'', ''key-b'']
   \<and> isl (attempt noKeyWorks 0 ''key-a'') \<and> attempt noKeyWorks 1 ''key-b'' = Inl emptyResponse
   \<and> generateGuestPostContent (Some [''key-a'', ''key-b'']) (Some ''key-a'') noKeyWorks
       = (Inl ''API retornou resposta vazia.'', [''key-a'', ''key-b''])
   \<and> getAvailableApiKeys None None = []
   \<and> generateGuestPostContent None None lastKeyWorks = (Inl noKeyMessage, [])"
proof -
  let ?ab = "Some [''key-a'', ''key-b'']"
  have a0: "isl (attempt lastKeyWorks 0 ''key-a'')" by code_simp
  have a1: "isl (attempt lastKeyWorks 1 ''key-b'')" by code_simp
  have a2: "attempt lastKeyWorks 2 ''key-c'' = Inr ''# Artigo''" by code_simp
  have b0: "isl (attempt noKeyWorks 0 ''key-a'')" by code_simp
  have b1: "attempt noKeyWorks 1 ''key-b'' = Inl emptyResponse" by code_simp
  have before: "\<forall>j<2. isl (attempt lastKeyWorks j ([''key-a'', ''key-b'', ''key-c''] ! j))"
    using a0 a1 by (auto simp: less_2_cases_iff)
  have dist: "\<forall>parsed. ?ab = Some parsed \<longrightarrow> distinct parsed"
    by simp
  note i1 = generation_key_rotation[of ?ab "Some ''key-c''" lastKeyWorks, unfolded Let_def keys_abc]
  note succ = i1[THEN conjunct2, THEN conjunct2, THEN conjunct2, THEN conjunct1, rule_format,
      of 2 "''# Artigo''"]
  have ok1: "generateGuestPostContent ?ab (Some ''key-c'') lastKeyWorks
              = (Inr ''# Artigo'', [''key-a'', ''key-b'', ''key-c''])"
    using succ before a2 by simp
  have ok2: "distinct (snd (generateGuestPostContent ?ab (Some ''key-c'') lastKeyWorks))"
    using i1[THEN conjunct2, THEN conjunct2, THEN conjunct1] dist by blast
  have all: "\<forall>j<length [''key-a'', ''key-b'']. isl (attempt noKeyWorks j ([''key-a'', ''key-b''] ! j))"
    using b0 b1 by (auto simp: less_Suc_eq)
  note i2 = generation_key_rotation[of ?ab "Some ''key-a''" noKeyWorks, unfolded Let_def keys_ab]
  note fail = i2[THEN conjunct2, THEN conjunct2, THEN conjunct2, THEN conjunct2, rule_format]
  have bad: "generateGuestPostContent ?ab (Some ''key-a'') noKeyWorks
              = (Inl ''API retornou resposta vazia.'', [''key-a'', ''key-b''])"
    using fail all b1 by (simp add: finalErrorMsg_def emptyResponse_def)
  note i3 = generation_key_rotation[of None None lastKeyWorks, unfolded Let_def keys_none]
  have none: "generateGuestPostContent None None lastKeyWorks = (Inl noKeyMessage, [])"
    using i3[THEN conjunct1] by simp
  show ?thesis
    using keys_abc a0 a1 a2 ok1 ok2 keys_ab b0 b1 bad keys_none none by simp
qed

subsection \<open>Batch Queue Engine: the consumer\<close>

lemma fold_addLog:
  "fold addLog ls p = p\<lparr> logs := logs p @ ls \<rparr>"
  by (induction ls arbitrary: p) (simp_all add: addLog_def)

lemma finishTask_state:
  "isProcessingBatch (fst (finishTask t w s)) = False
   \<and> processed (batchProgress (fst (finishTask t w s))) = processed (batchProgress s) + 1
   \<and> total (batchProgress (fst (finishTask t w s))) = total (batchProgress s)
   \<and> isDemoMode (fst (finishTask t w s)) = isDemoMode s
   \<and> batchToken (fst (finishTask t w s)) = batchToken s
   \<and> mode (fst (finishTask t w s)) = mode s"
  by (simp add: finishTask_def Let_def fold_addLog split: prod.splits)


lemma processNextItem_None:
  "processNextItem s = None \<longleftrightarrow> queue s = [] \<or> isProcessingBatch s"
  by (auto simp: processNextItem_def split: list.splits)

lemma processNextItem_progress:
  "processNextItem s = Some (t, s') \<Longrightarrow>
     total (batchProgress s') = total (batchProgress s)
     \<and> processed (batchProgress s') = processed (batchProgress s)
     \<and> logs (batchProgress s') = logs (batchProgress s) @ [''Iniciando: '' @ keyword (request (t_item t))]
     \<and> isDemoMode s' = isDemoMode s \<and> batchToken s' = batchToken s \<and> mode s' = mode s"
  by (auto simp: processNextItem_def addLog_def split: list.splits if_splits)


lemma consumerLoop_None: "processNextItem s = None \<Longrightarrow> consumerLoop world s = ([], s)"
  by (simp add: consumerLoop.simps)

lemma consumerLoop_Some:
  "processNextItem s = Some (t, s1) \<Longrightarrow>
     consumerLoop world s =
       ((t_item t, snd (finishTask t (world (t_item t)) s1))
          # fst (consumerLoop world (fst (finishTask t (world (t_item t)) s1))),
        snd (consumerLoop world (fst (finishTask t (world (t_item t)) s1))))"
  by (simp add: consumerLoop.simps[of world s] split: prod.splits)




lemma tryBlock_no_cooldown: "Delay 3000 \<notin> set (snd (snd (tryBlock t w)))"
  by (auto simp: tryBlock_def Let_def split: sum.splits option.splits prod.splits)

lemma finishTask_cooldown:
  "(Delay 3000 \<in> set (snd (finishTask t w s)) \<longleftrightarrow> \<not> t_isDemoMode t \<and> length (t_queue t) > 1)
   \<and> (Delay 3000 \<in> set (snd (finishTask t w s)) \<longrightarrow>
        last (snd (finishTask t w s)) = Delay 3000
        \<and> count_list (snd (finishTask t w s)) (Delay 3000) = 1)"
  using tryBlock_no_cooldown[of t w]
  by (auto simp: finishTask_effects coolDown_def count_list_0_iff)

lemma consumerLoop_cooldowns:
  "\<not> isProcessingBatch s \<Longrightarrow>
     map (\<lambda>(item, effs). Delay 3000 \<in> set effs) (fst (consumerLoop world s))
       = (if isDemoMode s then replicate (length (queue s)) False
          else replicate (length (queue s) - 1) True @ replicate (min 1 (length (queue s))) False)"
proof (induction world s rule: consumerLoop.induct)
  case (1 world s)
  show ?case
  proof (cases "processNextItem s")
    case None
    with "1.prems" show ?thesis
      by (auto simp: processNextItem_None consumerLoop_None)
  next
    case (Some p)
    obtain t s1 where p: "p = (t, s1)" by (cases p)
    let ?s2 = "fst (finishTask t (world (t_item t)) s1)"
    note pick = processNextItem_Some[OF Some[unfolded p]]
    note prog = processNextItem_progress[OF Some[unfolded p]]
    have idle: "\<not> isProcessingBatch ?s2"
      by (simp add: finishTask_state)
    have q2: "queue ?s2 = tl (queue s)"
      using pick by (simp add: finishTask_queue)
    have same: "isDemoMode ?s2 = isDemoMode s"
      using prog by (simp add: finishTask_state)
    from pick obtain rest where qs: "queue s = t_item t # rest"
      by (cases "queue s") auto
    have first: "Delay 3000 \<in> set (snd (finishTask t (world (t_item t)) s1))
                   \<longleftrightarrow> \<not> isDemoMode s \<and> rest \<noteq> []"
      using pick qs by (simp add: finishTask_cooldown)
    note ih = "1.IH"[OF Some p[symmetric] idle, unfolded q2 same qs]
    show ?thesis
    proof (cases rest)
      case Nil
      with ih first qs show ?thesis
        by (simp add: consumerLoop_Some[OF Some[unfolded p]])
    next
      case (Cons r rs)
      with ih first qs show ?thesis
        by (simp add: consumerLoop_Some[OF Some[unfolded p]] replicate_app_Cons_same)
    qed
  qed
qed


lemma handleSheetImport_flag:
  "isProcessingBatch (handleSheetImport genId sid rows token s) = isProcessingBatch s"
  by (simp add: handleSheetImport_def Let_def)




text \<open>
  The cool-down is decided from the values a job captured when it was picked. It is the
  last thing the job does before it leaves the queue: a wait of 3000 ms, made exactly when
  the captured demo flag is off and the captured queue holds more than this job; no other
  wait of a job has that length. Over a batch that runs from an idle engine with no import
  and no change of the demo flag in between, the captured values are the current ones:
  outside demo mode every job but the last is followed by the cool-down, in demo mode none
  is.
\<close>

lemma cooldown_of_captured_queue:
  "(Delay 3000 \<in> set (snd (finishTask t w s))
      \<longleftrightarrow> \<not> t_isDemoMode t \<and> length (t_queue t) > 1)
   \<and> (Delay 3000 \<in> set (snd (finishTask t w s)) \<longrightarrow>
        last (snd (finishTask t w s)) = Delay 3000
        \<and> count_list (snd (finishTask t w s)) (Delay 3000) = 1)
   \<and> (processNextItem s0 = Some (t0, s1) \<longrightarrow>
        t_isDemoMode t0 = isDemoMode s0 \<and> t_queue t0 = queue s0)
   \<and> (\<not> isProcessingBatch s0 \<longrightarrow>
        map (\<lambda>(item, effs). Delay 3000 \<in> set effs) (fst (consumerLoop world s0))
          = (if isDemoMode s0 then replicate (length (queue s0)) False
             else replicate (length (queue s0) - 1) True
                  @ replicate (min 1 (length (queue s0))) False))"
  using finishTask_cooldown[of t w s] processNextItem_Some[of s0 t0 s1]
    consumerLoop_cooldowns[of s0 world]
  by blast

lemma exampleState_idle: "\<not> isProcessingBatch exampleState \<and> \<not> isDemoMode exampleState"
  by code_simp

lemma demoState_idle: "\<not> isProcessingBatch demoState \<and> isDemoMode demoState
                       \<and> length (queue demoState) = 3"
  by code_simp

lemma cooldown_of_captured_queue_example:
  "\<not> isProcessingBatch exampleState \<and> \<not> isDemoMode exampleState
   \<and> length (queue exampleState) = 3
   \<and> map (\<lambda>(item, effs). Delay 3000 \<in> set effs) (fst (consumerLoop exampleWorld exampleState))
       = [True, True, False]
   \<and> \<not> isProcessingBatch demoState \<and> isDemoMode demoState \<and> length (queue demoState) = 3
   \<and> map (\<lambda>(item, effs). Delay 3000 \<in> set effs) (fst (consumerLoop exampleWorld demoState))
       = [False, False, False]
   \<and> Delay 3000 \<in> set (snd (finishTask taskA (exampleWorld itemA) exampleState))
   \<and> last (snd (finishTask taskA (exampleWorld itemA) exampleState)) = Delay 3000
   \<and> (\<exists>s1. processNextItem exampleState = Some (taskA, s1)
            \<and> t_queue taskA = queue exampleState)"
proof -
  obtain s1 where pick: "processNextItem exampleState = Some (taskA, s1)"
    using exampleState_pick by (cases "processNextItem exampleState") auto
  note a = cooldown_of_captured_queue[of taskA "exampleWorld itemA" exampleState exampleState
      taskA s1 exampleWorld]
  note b = cooldown_of_captured_queue[of taskA "exampleWorld itemA" exampleState demoState
      taskA s1 exampleWorld]
  have len: "length (queue exampleState) = 3"
    by (simp add: exampleState_queue)
  have r1: "map (\<lambda>(item, effs). Delay 3000 \<in> set effs)
              (fst (consumerLoop exampleWorld exampleState)) = [True, True, False]"
    using a exampleState_idle len by (simp add: numeral_3_eq_3)
  have r2: "map (\<lambda>(item, effs). Delay 3000 \<in> set effs)
              (fst (consumerLoop exampleWorld demoState)) = [False, False, False]"
    using b demoState_idle by (simp add: numeral_3_eq_3)
  have d: "Delay 3000 \<in> set (snd (finishTask taskA (exampleWorld itemA) exampleState))"
    by (simp add: taskA_effects)
  with a have l: "last (snd (finishTask taskA (exampleWorld itemA) exampleState)) = Delay 3000"
    by blast
  from a pick have q: "t_queue taskA = queue exampleState"
    by blast
  show ?thesis
    using exampleState_idle demoState_idle len r1 r2 d l pick q by simp
qed

text \<open>
  C8. The cool-down does not follow what remains in the queue when the job finishes. The
  queue and the demo flag it is decided from are those of the render in which the job was
  picked, and an import made while the job is in flight changes the queue without
  changing them. A batch of one job is started; three rows are imported while the job is
  in flight; the job then ends with no wait of 3000 ms, although the run is not in demo
  mode and two jobs remain in the queue, and the next job can be started at once. In the
  other direction, the second job of the example batch was picked from a queue of two; one
  row is imported while it is in flight; the job ends with the wait of 3000 ms although it
  leaves the queue empty.
\<close>

theorem cooldown_ignores_late_import:
  "processNextItem soloState = Some (soloTask, soloPicked)
   \<and> queue soloPicked = [itemA] \<and> isProcessingBatch soloPicked
   \<and> queue lateImport = [itemD, itemE, itemF]
   \<and> isProcessingBatch lateImport \<and> \<not> isDemoMode lateImport
   \<and> snd (finishTask soloTask (exampleWorld itemA) lateImport)
       = [Generate (request itemA), DriveUpload ''tok'' ''Title'',
          SheetWrite (updateSheetCellRequest ''tok'' ''sheet1'' 0 ''https://docs.example/d/1'' None)]
   \<and> Delay 3000 \<notin> set (snd (finishTask soloTask (exampleWorld itemA) lateImport))
   \<and> queue afterSolo = [itemE, itemF]
   \<and> \<not> isDemoMode afterSolo \<and> \<not> isProcessingBatch afterSolo
   \<and> map_option (t_item \<circ> fst) (processNextItem afterSolo) = Some itemE
   \<and> processNextItem afterFirstJob = Some (taskB, busyState)
   \<and> queue shortImport = [itemD]
   \<and> isProcessingBatch shortImport \<and> \<not> isDemoMode shortImport
   \<and> snd (finishTask taskB (exampleWorld itemB) shortImport)
       = [Generate (request itemB), Delay 3000]
   \<and> queue (fst (finishTask taskB (exampleWorld itemB) shortImport)) = []"
  by code_simp

subsection \<open>Batch Queue Engine: the transition system\<close>

lemma reachable_inflight:
  "reachable s ts \<Longrightarrow>
     (ts = [] \<and> \<not> isProcessingBatch s) \<or> (\<exists>t. ts = [t] \<and> isProcessingBatch s)"
proof (induction rule: reachable.induct)
  case (start saved)
  then show ?case by (simp add: initialState_def)
next
  case (import s ts genId sid rows token)
  then show ?case by (simp add: handleSheetImport_flag)
next
  case (invoke s ts t s')
  from processNextItem_Some[OF invoke.hyps(2)] invoke.IH show ?case
    by auto
next
  case (idle_call s ts)
  then show ?case by simp
next
  case (complete s ts t w)
  then show ?case
    by (auto simp: finishTask_state)
next
  case (close s ts)
  then show ?case by (simp add: closePanel_def)
next
  case (set_demo s ts b)
  then show ?case by simp
next
  case (set_mode s ts m)
  then show ?case by simp
next
  case (set_articles s ts arts)
  then show ?case by simp
qed

text \<open>
  C2. In every state the engine can reach, by any interleaving of imports, runs of the
  effect, job ends and user actions, at most one job is in flight, and the flag
  \<open>isProcessingBatch\<close> is raised exactly when one is. A call of the consumer does nothing
  when the queue is empty or the flag is raised; when it does start a job, none was in
  flight.
\<close>

theorem at_most_one_job_in_flight:
  assumes "reachable s ts"
  shows "length ts \<le> 1
         \<and> (isProcessingBatch s \<longleftrightarrow> ts \<noteq> [])
         \<and> (processNextItem s = None \<longleftrightarrow> queue s = [] \<or> isProcessingBatch s)
         \<and> (\<forall>t s'. processNextItem s = Some (t, s') \<longrightarrow>
               ts = [] \<and> length (ts @ [t]) = 1 \<and> isProcessingBatch s')"
proof -
  from reachable_inflight[OF assms]
  have one: "length ts \<le> 1 \<and> (isProcessingBatch s \<longleftrightarrow> ts \<noteq> [])"
    by auto
  have start: "ts = [] \<and> length (ts @ [t]) = 1 \<and> isProcessingBatch s'"
    if "processNextItem s = Some (t, s')" for t s'
    using processNextItem_Some[OF that] one by auto
  show ?thesis
    using one start processNextItem_None[of s] by blast
qed

lemma exampleState_reachable: "reachable exampleState []"
  unfolding exampleState_def by (intro reachable.import reachable.start)

theorem at_most_one_job_in_flight_witness:
  "\<exists>s1. processNextItem exampleState = Some (taskA, s1)
        \<and> reachable exampleState [] \<and> reachable s1 [taskA]
        \<and> length [taskA] \<le> 1 \<and> isProcessingBatch s1
        \<and> processNextItem s1 = None"
proof -
  obtain s1 where pick: "processNextItem exampleState = Some (taskA, s1)"
    using exampleState_pick by (cases "processNextItem exampleState") auto
  have r1: "reachable s1 ([] @ [taskA])"
    using reachable.invoke[OF exampleState_reachable pick] .
  then have r1': "reachable s1 [taskA]"
    by simp
  from at_most_one_job_in_flight[OF r1']
  have "length [taskA] \<le> 1 \<and> isProcessingBatch s1 \<and> processNextItem s1 = None"
    by simp
  with pick r1' exampleState_reachable show ?thesis
    by blast
qed

subsection \<open>Batch Queue Engine: import while a batch is active\<close>

text \<open>
  C5, as stated, fails. The example batch has finished its first job and started its
  second (two jobs queued, \<open>total\<close> 3, \<open>processed\<close> 1) when a sheet with one valid row is
  imported. The queue is then that one new job, not the old queue followed by it;
  \<open>total\<close> is 1, not 4; \<open>processed\<close> is back at 0 and the log holds the import line only.
\<close>

theorem import_while_active_counterexample:
  "isProcessingBatch busyState \<and> isActive (batchProgress busyState)
   \<and> mode busyState \<noteq> BULK_PUBLISH
   \<and> queue busyState = [itemB, itemC]
   \<and> total (batchProgress busyState) = 3 \<and> processed (batchProgress busyState) = 1
   \<and> rowsToQueue stringOfNat ''sheet2'' 0 0 [[''D'']] = [itemD]
   \<and> queue (handleSheetImport stringOfNat ''sheet2'' [[''D'']] ''tok2'' busyState) = [itemD]
   \<and> queue (handleSheetImport stringOfNat ''sheet2'' [[''D'']] ''tok2'' busyState)
       \<noteq> queue busyState @ [itemD]
   \<and> total (batchProgress (handleSheetImport stringOfNat ''sheet2'' [[''D'']] ''tok2'' busyState)) = 1
   \<and> total (batchProgress (handleSheetImport stringOfNat ''sheet2'' [[''D'']] ''tok2'' busyState))
       \<noteq> total (batchProgress busyState) + length [itemD]
   \<and> processed (batchProgress (handleSheetImport stringOfNat ''sheet2'' [[''D'']] ''tok2'' busyState))
       \<noteq> processed (batchProgress busyState)
   \<and> logs (batchProgress (handleSheetImport stringOfNat ''sheet2'' [[''D'']] ''tok2'' busyState))
       = [''Importado 1 linhas. Iniciando fila...'']"
  by code_simp

text \<open>
  C5, amended. An import in generation mode that yields at least one job replaces the queue
  by the new jobs, sets \<open>total\<close> to their number, \<open>processed\<close> to 0 and the log to the
  single import line, and stores the token, whether or not a batch was active. An import
  that yields no job leaves the queue, the progress and the token as they were. In both
  cases the in-flight flag is left alone, so an import starts no second consumer.
\<close>

theorem import_replaces_queue:
  assumes "mode s \<noteq> BULK_PUBLISH"
    and "newQueue = rowsToQueue genId sid 0 0 (if isDemoMode s then DEMO_ROWS else rows)"
    and "s' = handleSheetImport genId sid rows token s"
  shows "(newQueue \<noteq> [] \<longrightarrow>
            queue s' = newQueue
            \<and> batchProgress s'
                = \<lparr> isActive = True, total = length newQueue, processed = 0, currentKeyword = [],
                    logs = [''Importado '' @ stringOfNat (length newQueue)
                            @ '' linhas. Iniciando fila...''] \<rparr>
            \<and> batchToken s' = Some token)
         \<and> (newQueue = [] \<longrightarrow>
               queue s' = queue s \<and> batchProgress s' = batchProgress s
               \<and> batchToken s' = batchToken s)
         \<and> isProcessingBatch s' = isProcessingBatch s"
  using assms by (simp add: handleSheetImport_def Let_def)

lemma busyState_facts:
  "mode busyState \<noteq> BULK_PUBLISH \<and> \<not> isDemoMode busyState \<and> isProcessingBatch busyState
   \<and> isActive (batchProgress busyState)"
  by code_simp

lemma itemD_queue: "rowsToQueue stringOfNat ''sheet2'' 0 0 [[''D'']] = [itemD]"
  by code_simp

theorem import_replaces_queue_witness:
  "mode busyState \<noteq> BULK_PUBLISH \<and> isActive (batchProgress busyState)
   \<and> isProcessingBatch busyState
   \<and> [itemD] = rowsToQueue stringOfNat ''sheet2'' 0 0
                  (if isDemoMode busyState then DEMO_ROWS else [[''D'']])
   \<and> queue (handleSheetImport stringOfNat ''sheet2'' [[''D'']] ''tok2'' busyState) = [itemD]
   \<and> total (batchProgress (handleSheetImport stringOfNat ''sheet2'' [[''D'']] ''tok2'' busyState)) = 1
   \<and> processed (batchProgress (handleSheetImport stringOfNat ''sheet2'' [[''D'']] ''tok2'' busyState)) = 0
   \<and> isProcessingBatch (handleSheetImport stringOfNat ''sheet2'' [[''D'']] ''tok2'' busyState)
   \<and> queue (handleSheetImport stringOfNat ''sheet2'' [[]] ''tok2'' busyState) = queue busyState"
proof -
  have m: "mode busyState \<noteq> BULK_PUBLISH"
    using busyState_facts by simp
  have q: "[itemD] = rowsToQueue stringOfNat ''sheet2'' 0 0
                  (if isDemoMode busyState then DEMO_ROWS else [[''D'']])"
    using busyState_facts itemD_queue by simp
  have e: "[] = rowsToQueue stringOfNat ''sheet2'' 0 0
                  (if isDemoMode busyState then DEMO_ROWS else [[]])"
    using busyState_facts by (simp add: cell_def)
  note a = import_replaces_queue[OF m q refl, of "''tok2''"]
  note b = import_replaces_queue[OF m e refl, of "''tok2''"]
  from a have a': "queue (handleSheetImport stringOfNat ''sheet2'' [[''D'']] ''tok2'' busyState) = [itemD]
     \<and> total (batchProgress (handleSheetImport stringOfNat ''sheet2'' [[''D'']] ''tok2'' busyState)) = 1
     \<and> processed (batchProgress (handleSheetImport stringOfNat ''sheet2'' [[''D'']] ''tok2'' busyState)) = 0
     \<and> isProcessingBatch (handleSheetImport stringOfNat ''sheet2'' [[''D'']] ''tok2'' busyState)"
    using busyState_facts by simp
  from b have b': "queue (handleSheetImport stringOfNat ''sheet2'' [[]] ''tok2'' busyState) = queue busyState"
    by simp
  show ?thesis
    using m q a' b' busyState_facts by simp
qed

text \<open>
  The states of the late import are states of the engine: the import, the start of the
  job, the second import and the end of the job are steps of the transition system. When
  the job ends it removes the head of the queue as it then is, which is the first of the
  newly imported jobs: that job is never started.
\<close>

lemma soloState_pick: "processNextItem soloState = Some (soloTask, soloPicked)"
  by code_simp

lemma lateImport_reachable: "reachable lateImport [soloTask] \<and> reachable afterSolo []"
proof -
  have r0: "reachable soloState []"
    unfolding soloState_def by (intro reachable.import reachable.start)
  have r1: "reachable soloPicked ([] @ [soloTask])"
    using reachable.invoke[OF r0 soloState_pick] .
  then have r2: "reachable lateImport [soloTask]"
    unfolding lateImport_def using reachable.import[of soloPicked "[soloTask]"] by simp
  have "reachable (fst (finishTask soloTask (exampleWorld itemA) lateImport))
          (remove1 soloTask [soloTask])"
    by (rule reachable.complete[OF r2]) simp
  then have r3: "reachable afterSolo []"
    by (simp add: afterSolo_def)
  from r2 r3 show ?thesis
    by simp
qed

lemma late_import_drops_head:
  "queue lateImport = [itemD, itemE, itemF]
   \<and> queue afterSolo = [itemE, itemF]
   \<and> map fst (fst (consumerLoop exampleWorld afterSolo)) = [itemE, itemF]"
  by code_simp

subsection \<open>Publish Orchestrator\<close>

lemma find_updateDraft:
  "(\<And>d. d_id (f d) = d_id d) \<Longrightarrow>
     find (\<lambda>d. d_id d = i) (updateDraft i f ds) = map_option f (find (\<lambda>d. d_id d = i) ds)"
  by (induction ds) (auto simp: updateDraft_def)

lemma updateDraft_twice:
  "(\<And>d. d_id (f d) = d_id d) \<Longrightarrow>
   updateDraft i g (updateDraft i f ds) = updateDraft i (g \<circ> f) ds"
  by (induction ds) (auto simp: updateDraft_def)

lemma handlePublish_outcome:
  assumes d: "find (\<lambda>d. d_id d = i) drafts = Some draft"
    and m: "matchedSiteId draft \<noteq> []"
    and st: "find (\<lambda>s. ws_id s = matchedSiteId draft) sites = Some site"
  shows "handlePublish nw i sites drafts =
     (let up = uploadIfAttached nw site draft;
          begun = (\<lambda>d. d\<lparr> d_status := Publishing, errorMsg := [] \<rparr>)
      in case fst up of
           Inl e \<Rightarrow>
             (updateDraft i ((\<lambda>d. d\<lparr> d_status := Error, errorMsg := e \<rparr>) \<circ> begun) drafts,
              snd up, [])
         | Inr mediaId \<Rightarrow>
             (case createWpPost nw (length (snd up)) site of
                (Inl e, calls) \<Rightarrow>
                  (updateDraft i ((\<lambda>d. d\<lparr> d_status := Error, errorMsg := e \<rparr>) \<circ> begun) drafts,
                   snd up @ calls, [])
              | (Inr None, calls) \<Rightarrow>
                  (updateDraft i
                     ((\<lambda>d. d\<lparr> d_status := Error, errorMsg := nullRead ''link'' \<rparr>) \<circ> begun)
                     drafts,
                   snd up @ calls, [])
              | (Inr (Some result), calls) \<Rightarrow>
                  (updateDraft i
                     ((\<lambda>d. d\<lparr> d_status := Success, publishedLink := json_link result \<rparr>) \<circ> begun)
                     drafts,
                   snd up @ calls, [])))"
  using d m st
  by (simp add: handlePublish_def Let_def updateDraft_twice
           split: sum.splits prod.splits option.splits)

lemma find_updated:
  assumes "find (\<lambda>d. d_id d = i) drafts = Some draft"
  shows "find (\<lambda>d. d_id d = i)
           (updateDraft i ((\<lambda>d. d\<lparr> d_status := Error, errorMsg := e \<rparr>)
                           \<circ> (\<lambda>d. d\<lparr> d_status := Publishing, errorMsg := [] \<rparr>)) drafts)
           = Some (draft\<lparr> d_status := Error, errorMsg := e \<rparr>)"
    and "find (\<lambda>d. d_id d = i)
           (updateDraft i ((\<lambda>d. d\<lparr> d_status := Success, publishedLink := l \<rparr>)
                           \<circ> (\<lambda>d. d\<lparr> d_status := Publishing, errorMsg := [] \<rparr>)) drafts)
           = Some (draft\<lparr> d_status := Success, errorMsg := [], publishedLink := l \<rparr>)"
  using assms by (simp_all add: find_updateDraft)

lemma encodeURIComponent_append:
  "encodeURIComponent (a @ b) = encodeURIComponent a @ encodeURIComponent b"
  by (simp add: encodeURIComponent_def)

lemma encode_media: "encodeURIComponent ''media'' = ''media''"
  by code_simp

lemma encode_posts: "encodeURIComponent ''posts'' = ''posts''"
  by code_simp

lemma suffix_media:
  "suffix ''media'' (b @ ''/wp-json/wp/v2/media'')"
  "suffix ''media'' (b @ ''/?rest_route=/wp/v2/media'')"
  "suffix ''media'' (proxyUrl (b @ ''/wp-json/wp/v2/media''))"
  "suffix ''media'' (proxyUrl (b @ ''/?rest_route=/wp/v2/media''))"
proof -
  have a: "b @ ''/wp-json/wp/v2/media'' = (b @ ''/wp-json/wp/v2/'') @ ''media''"
    by simp
  have c: "b @ ''/?rest_route=/wp/v2/media'' = (b @ ''/?rest_route=/wp/v2/'') @ ''media''"
    by simp
  show "suffix ''media'' (b @ ''/wp-json/wp/v2/media'')"
    unfolding a by (rule suffix_appendI) simp
  show "suffix ''media'' (b @ ''/?rest_route=/wp/v2/media'')"
    unfolding c by (rule suffix_appendI) simp
  show "suffix ''media'' (proxyUrl (b @ ''/wp-json/wp/v2/media''))"
    unfolding a proxyUrl_def encodeURIComponent_append encode_media
    by (intro suffix_appendI) simp
  show "suffix ''media'' (proxyUrl (b @ ''/?rest_route=/wp/v2/media''))"
    unfolding c proxyUrl_def encodeURIComponent_append encode_media
    by (intro suffix_appendI) simp
qed

lemma upload_calls_media:
  "u \<in> set (snd (uploadWpMedia nw n site file)) \<Longrightarrow> suffix ''media'' u"
  using suffix_media[of "cleanWpUrl (url site)"]
  by (auto simp: uploadWpMedia_def Let_def split: sum.splits if_splits)

lemma suffix_posts:
  "suffix ''posts'' (standardUrl b ''/posts'')"
  "suffix ''posts'' (fallbackUrl b ''/posts'')"
  "suffix ''posts'' (proxyUrl (standardUrl b ''/posts''))"
  "suffix ''posts'' (proxyUrl (fallbackUrl b ''/posts''))"
proof -
  have a: "standardUrl b ''/posts'' = (b @ ''/wp-json/wp/v2/'') @ ''posts''"
    by (simp add: standardUrl_def)
  have c: "fallbackUrl b ''/posts'' = (b @ ''/?rest_route=/wp/v2/'') @ ''posts''"
    by (simp add: fallbackUrl_def)
  show "suffix ''posts'' (standardUrl b ''/posts'')"
    unfolding a by (rule suffix_appendI) simp
  show "suffix ''posts'' (fallbackUrl b ''/posts'')"
    unfolding c by (rule suffix_appendI) simp
  show "suffix ''posts'' (proxyUrl (standardUrl b ''/posts''))"
    unfolding a proxyUrl_def encodeURIComponent_append encode_posts
    by (intro suffix_appendI) simp
  show "suffix ''posts'' (proxyUrl (fallbackUrl b ''/posts''))"
    unfolding c proxyUrl_def encodeURIComponent_append encode_posts
    by (intro suffix_appendI) simp
qed

lemma createWpPost_calls: "snd (createWpPost nw n site) = snd (fetchWpWithFallback nw n site ''/posts'')"
  by (simp add: createWpPost_def split: prod.splits sum.splits)

lemma post_calls_posts:
  "u \<in> set (snd (createWpPost nw n site)) \<Longrightarrow> suffix ''posts'' u"
  using suffix_posts[of "cleanWpUrl (url site)"] fetch_calls_cases[of nw n site "''/posts''"]
  by (auto simp: createWpPost_calls)

lemma media_not_posts: "suffix ''media'' u \<Longrightarrow> \<not> suffix ''posts'' u"
  by (auto simp: suffix_def)

text \<open>
  C7. A draft is published whose site is resolved. When an image is attached the upload
  comes first: all its requests go to the media endpoint and none to the posts endpoint.
  If the upload fails, nothing else is requested, and the draft ends in status
  \<open>Error\<close> with the message of the upload error. Otherwise the post creation follows,
  its requests coming after those of the upload; if it fails the draft ends in status
  \<open>Error\<close> with the message of that failure, and if it succeeds the draft ends in status
  \<open>Success\<close> with the link of the created post (when the answer decodes to \<open>null\<close>
  there is no post to read a link from: reading it fails and the draft ends in status
  \<open>Error\<close> with the message of that failure). A draft in status \<open>Error\<close> keeps its
  site and image and its publish control is enabled, so it can be submitted again; the
  control of a draft in status \<open>Success\<close> is disabled.
\<close>

theorem publish_orchestration:
  assumes d: "find (\<lambda>d. d_id d = i) drafts = Some draft"
    and m: "matchedSiteId draft \<noteq> []"
    and st: "find (\<lambda>s. ws_id s = matchedSiteId draft) sites = Some site"
    and res: "handlePublish nw i sites drafts = (drafts', calls, alerts)"
    and up: "up = uploadIfAttached nw site draft"
    and post: "post = createWpPost nw (length (snd up)) site"
  shows "(image draft = None \<longrightarrow> up = (Inr None, []))
     \<and> (\<forall>file. image draft = Some file \<longrightarrow> up = uploadWpMedia nw 0 site file \<and> snd up \<noteq> [])
     \<and> (\<forall>u \<in> set (snd up). suffix ''media'' u \<and> \<not> suffix ''posts'' u)
     \<and> (\<forall>u \<in> set (snd post). suffix ''posts'' u)
     \<and> (\<forall>e. fst up = Inl e \<longrightarrow>
           calls = snd up
           \<and> find (\<lambda>d. d_id d = i) drafts' = Some (draft\<lparr> d_status := Error, errorMsg := e \<rparr>))
     \<and> (\<forall>mediaId. fst up = Inr mediaId \<longrightarrow>
           calls = snd up @ snd post
           \<and> (\<forall>e. fst post = Inl e \<longrightarrow>
                 find (\<lambda>d. d_id d = i) drafts' = Some (draft\<lparr> d_status := Error, errorMsg := e \<rparr>))
           \<and> (\<forall>result. fst post = Inr (Some result) \<longrightarrow>
                 find (\<lambda>d. d_id d = i) drafts'
                   = Some (draft\<lparr> d_status := Success, errorMsg := [],
                                  publishedLink := json_link result \<rparr>))
           \<and> (fst post = Inr None \<longrightarrow>
                 find (\<lambda>d. d_id d = i) drafts'
                   = Some (draft\<lparr> d_status := Error, errorMsg := nullRead ''link'' \<rparr>)))
     \<and> (\<forall>d'. find (\<lambda>d. d_id d = i) drafts' = Some d' \<longrightarrow>
           (d_status d' = Error \<or> d_status d' = Success)
           \<and> (d_status d' = Error \<longrightarrow> \<not> publishDisabled d')
           \<and> (d_status d' = Success \<longrightarrow> publishDisabled d')
           \<and> matchedSiteId d' = matchedSiteId draft \<and> image d' = image draft)
     \<and> alerts = []"
proof -
  note out = handlePublish_outcome[OF d m st, of nw, unfolded Let_def, folded up, folded post]
  have a: "image draft = None \<longrightarrow> up = (Inr None, [])"
    by (simp add: up uploadIfAttached_def)
  have b: "\<forall>file. image draft = Some file \<longrightarrow> up = uploadWpMedia nw 0 site file \<and> snd up \<noteq> []"
    by (auto simp: up uploadIfAttached_def uploadWpMedia_def Let_def split: sum.splits)
  have c: "\<forall>u \<in> set (snd up). suffix ''media'' u \<and> \<not> suffix ''posts'' u"
    using upload_calls_media[of _ nw 0 site] media_not_posts
    by (auto simp: up uploadIfAttached_def split: option.splits)
  have p: "\<forall>u \<in> set (snd post). suffix ''posts'' u"
    using post_calls_posts[of _ nw "length (snd up)" site] by (simp add: post)
  note eq = out[unfolded res]
  have e1: "calls = snd up
           \<and> find (\<lambda>d. d_id d = i) drafts' = Some (draft\<lparr> d_status := Error, errorMsg := e \<rparr>)"
    if "fst up = Inl e" for e
  proof -
    from eq that have "drafts' = updateDraft i ((\<lambda>d. d\<lparr> d_status := Error, errorMsg := e \<rparr>)
                           \<circ> (\<lambda>d. d\<lparr> d_status := Publishing, errorMsg := [] \<rparr>)) drafts"
      and "calls = snd up"
      by simp_all
    then show ?thesis
      using find_updated(1)[OF d, of e] by simp
  qed
  have f1: "calls = snd up @ snd post" if "fst up = Inr mediaId" for mediaId
    using eq that by (cases post; cases "fst post") (auto split: option.splits)
  have f2: "find (\<lambda>d. d_id d = i) drafts' = Some (draft\<lparr> d_status := Error, errorMsg := e \<rparr>)"
    if "fst up = Inr mediaId" "fst post = Inl e" for mediaId e
  proof -
    from eq that have "drafts' = updateDraft i ((\<lambda>d. d\<lparr> d_status := Error, errorMsg := e \<rparr>)
                           \<circ> (\<lambda>d. d\<lparr> d_status := Publishing, errorMsg := [] \<rparr>)) drafts"
      by (cases post) simp
    then show ?thesis
      using find_updated(1)[OF d, of e] by simp
  qed
  have f3: "find (\<lambda>d. d_id d = i) drafts'
              = Some (draft\<lparr> d_status := Success, errorMsg := [],
                             publishedLink := json_link result \<rparr>)"
    if "fst up = Inr mediaId" "fst post = Inr (Some result)" for mediaId result
  proof -
    from eq that have "drafts' = updateDraft i
        ((\<lambda>d. d\<lparr> d_status := Success, publishedLink := json_link result \<rparr>)
           \<circ> (\<lambda>d. d\<lparr> d_status := Publishing, errorMsg := [] \<rparr>)) drafts"
      by (cases post) simp
    then show ?thesis
      using find_updated(2)[OF d, of "json_link result"] by simp
  qed
  have f4: "find (\<lambda>d. d_id d = i) drafts'
              = Some (draft\<lparr> d_status := Error, errorMsg := nullRead ''link'' \<rparr>)"
    if "fst up = Inr mediaId" "fst post = Inr None" for mediaId
  proof -
    from eq that have "drafts' = updateDraft i
        ((\<lambda>d. d\<lparr> d_status := Error, errorMsg := nullRead ''link'' \<rparr>)
           \<circ> (\<lambda>d. d\<lparr> d_status := Publishing, errorMsg := [] \<rparr>)) drafts"
      by (cases post) simp
    then show ?thesis
      using find_updated(1)[OF d, of "nullRead ''link''"] by simp
  qed
  have g: "(d_status d' = Error \<or> d_status d' = Success)
           \<and> (d_status d' = Error \<longrightarrow> \<not> publishDisabled d')
           \<and> (d_status d' = Success \<longrightarrow> publishDisabled d')
           \<and> matchedSiteId d' = matchedSiteId draft \<and> image d' = image draft"
    if found: "find (\<lambda>d. d_id d = i) drafts' = Some d'" for d'
  proof (cases "fst up")
    case (Inl e)
    from e1[OF Inl] found m show ?thesis
      by (auto simp: publishDisabled_def)
  next
    case (Inr mediaId)
    show ?thesis
    proof (cases "fst post")
      case (Inl e)
      from f2[OF Inr Inl] found m show ?thesis
        by (auto simp: publishDisabled_def)
    next
      case inr: (Inr result)
      show ?thesis
      proof (cases result)
        case None
        from f4[OF Inr inr[unfolded None]] found m show ?thesis
          by (auto simp: publishDisabled_def)
      next
        case (Some r)
        from f3[OF Inr inr[unfolded Some]] found m show ?thesis
          by (auto simp: publishDisabled_def)
      qed
    qed
  qed
  have h: "alerts = []"
    using eq by (cases "fst up"; cases post; cases "fst post") (auto split: option.splits)
  show ?thesis
    using a b c p e1 f1 f2 f3 f4 g h by blast
qed

lemma exampleDraft_resolved:
  "find (\<lambda>d. d_id d = ''d1'') [exampleDraft] = Some exampleDraft
   \<and> matchedSiteId exampleDraft \<noteq> []
   \<and> find (\<lambda>s. ws_id s = matchedSiteId exampleDraft) [exampleSite] = Some exampleSite"
  by code_simp

lemma netDown_upload:
  "uploadIfAttached netDown exampleSite exampleDraft
     = (Inl uploadAllFailed,
        [''https://example.com/wp-json/wp/v2/media'',
         ''https://example.com/?rest_route=/wp/v2/media'',
         ''https://corsproxy.io/?https%3A%2F%2Fexample.com%2Fwp-json%2Fwp%2Fv2%2Fmedia'',
         ''https://corsproxy.io/?https%3A%2F%2Fexample.com%2F%3Frest_route%3D%2Fwp%2Fv2%2Fmedia''])"
  by code_simp

lemma netUp_upload:
  "uploadIfAttached netUp exampleSite exampleDraft
     = (Inr (Some 7), [''https://example.com/wp-json/wp/v2/media''])"
  by code_simp

lemma netUp_post:
  "createWpPost netUp (Suc 0) exampleSite = (Inr (Some exampleBody), [''https://example.com/wp-json/wp/v2/posts''])"
  by code_simp

lemma netPostDenied_upload:
  "uploadIfAttached netPostDenied exampleSite exampleDraft
     = (Inr (Some 7), [''https://example.com/wp-json/wp/v2/media''])"
  by code_simp

lemma netPostDenied_post:
  "createWpPost netPostDenied (Suc 0) exampleSite
     = (Inl (accessDenied label1), [''https://example.com/wp-json/wp/v2/posts''])"
  by code_simp

lemma netPostNull_upload:
  "uploadIfAttached netPostNull exampleSite exampleDraft
     = (Inr (Some 7), [''https://example.com/wp-json/wp/v2/media''])"
  by code_simp

lemma netPostNull_post:
  "createWpPost netPostNull (Suc 0) exampleSite
     = (Inr None, [''https://example.com/wp-json/wp/v2/posts''])"
  by code_simp

theorem publish_orchestration_witness:
  "find (\<lambda>d. d_id d = ''d1'') [exampleDraft] = Some exampleDraft
   \<and> matchedSiteId exampleDraft \<noteq> []
   \<and> find (\<lambda>s. ws_id s = matchedSiteId exampleDraft) [exampleSite] = Some exampleSite
   \<and> fst (uploadIfAttached netDown exampleSite exampleDraft) = Inl uploadAllFailed
   \<and> find (\<lambda>d. d_id d = ''d1'') (fst (handlePublish netDown ''d1'' [exampleSite] [exampleDraft]))
       = Some (exampleDraft\<lparr> d_status := Error, errorMsg := uploadAllFailed \<rparr>)
   \<and> fst (snd (handlePublish netDown ''d1'' [exampleSite] [exampleDraft]))
       = snd (uploadIfAttached netDown exampleSite exampleDraft)
   \<and> \<not> publishDisabled (exampleDraft\<lparr> d_status := Error, errorMsg := uploadAllFailed \<rparr>)
   \<and> fst (uploadIfAttached netUp exampleSite exampleDraft) = Inr (Some 7)
   \<and> fst (createWpPost netUp 1 exampleSite) = Inr (Some exampleBody)
   \<and> find (\<lambda>d. d_id d = ''d1'') (fst (handlePublish netUp ''d1'' [exampleSite] [exampleDraft]))
       = Some (exampleDraft\<lparr> d_status := Success, errorMsg := [],
                              publishedLink := Some ''https://example.com/?p=7'' \<rparr>)
   \<and> fst (snd (handlePublish netUp ''d1'' [exampleSite] [exampleDraft]))
       = [''https://example.com/wp-json/wp/v2/media'', ''https://example.com/wp-json/wp/v2/posts'']
   \<and> fst (createWpPost netPostDenied 1 exampleSite) = Inl (accessDenied label1)
   \<and> find (\<lambda>d. d_id d = ''d1'')
         (fst (handlePublish netPostDenied ''d1'' [exampleSite] [exampleDraft]))
       = Some (exampleDraft\<lparr> d_status := Error, errorMsg := accessDenied label1 \<rparr>)
   \<and> fst (createWpPost netPostNull 1 exampleSite) = Inr None
   \<and> find (\<lambda>d. d_id d = ''d1'')
         (fst (handlePublish netPostNull ''d1'' [exampleSite] [exampleDraft]))
       = Some (exampleDraft\<lparr> d_status := Error, errorMsg := nullRead ''link'' \<rparr>)"
proof -
  note r = exampleDraft_resolved
  have d: "find (\<lambda>d. d_id d = ''d1'') [exampleDraft] = Some exampleDraft"
    and m: "matchedSiteId exampleDraft \<noteq> []"
    and st: "find (\<lambda>s. ws_id s = matchedSiteId exampleDraft) [exampleSite] = Some exampleSite"
    using r by simp_all
  have split: "handlePublish nw ''d1'' [exampleSite] [exampleDraft]
      = (fst (handlePublish nw ''d1'' [exampleSite] [exampleDraft]),
         fst (snd (handlePublish nw ''d1'' [exampleSite] [exampleDraft])),
         snd (snd (handlePublish nw ''d1'' [exampleSite] [exampleDraft])))" for nw
    by simp
  note down = publish_orchestration[OF d m st split[of netDown] refl refl]
  note up = publish_orchestration[OF d m st split[of netUp] refl refl]
  note denied = publish_orchestration[OF d m st split[of netPostDenied] refl refl]
  have u1: "fst (uploadIfAttached netDown exampleSite exampleDraft) = Inl uploadAllFailed"
    by (simp add: netDown_upload)
  from down u1 have w1:
    "find (\<lambda>d. d_id d = ''d1'') (fst (handlePublish netDown ''d1'' [exampleSite] [exampleDraft]))
       = Some (exampleDraft\<lparr> d_status := Error, errorMsg := uploadAllFailed \<rparr>)
     \<and> fst (snd (handlePublish netDown ''d1'' [exampleSite] [exampleDraft]))
       = snd (uploadIfAttached netDown exampleSite exampleDraft)"
    by blast
  from down w1 have w1': "\<not> publishDisabled (exampleDraft\<lparr> d_status := Error, errorMsg := uploadAllFailed \<rparr>)"
    by simp
  have u2: "fst (uploadIfAttached netUp exampleSite exampleDraft) = Inr (Some 7)"
    by (simp add: netUp_upload)
  have p2: "fst (createWpPost netUp (length (snd (uploadIfAttached netUp exampleSite exampleDraft)))
              exampleSite) = Inr (Some exampleBody)"
    by (simp add: netUp_upload netUp_post)
  from up u2 p2 have w2:
    "find (\<lambda>d. d_id d = ''d1'') (fst (handlePublish netUp ''d1'' [exampleSite] [exampleDraft]))
       = Some (exampleDraft\<lparr> d_status := Success, errorMsg := [],
                              publishedLink := json_link exampleBody \<rparr>)
     \<and> fst (snd (handlePublish netUp ''d1'' [exampleSite] [exampleDraft]))
       = snd (uploadIfAttached netUp exampleSite exampleDraft)
         @ snd (createWpPost netUp (length (snd (uploadIfAttached netUp exampleSite exampleDraft)))
              exampleSite)"
    by blast
  have u3: "fst (uploadIfAttached netPostDenied exampleSite exampleDraft) = Inr (Some 7)"
    by (simp add: netPostDenied_upload)
  have p3: "fst (createWpPost netPostDenied
                   (length (snd (uploadIfAttached netPostDenied exampleSite exampleDraft)))
                   exampleSite) = Inl (accessDenied label1)"
    by (simp add: netPostDenied_upload netPostDenied_post)
  from denied u3 p3 have w3:
    "find (\<lambda>d. d_id d = ''d1'')
         (fst (handlePublish netPostDenied ''d1'' [exampleSite] [exampleDraft]))
       = Some (exampleDraft\<lparr> d_status := Error, errorMsg := accessDenied label1 \<rparr>)"
    by blast
  note null = publish_orchestration[OF d m st split[of netPostNull] refl refl]
  have u4: "fst (uploadIfAttached netPostNull exampleSite exampleDraft) = Inr (Some 7)"
    by (simp add: netPostNull_upload)
  have p4: "fst (createWpPost netPostNull
                   (length (snd (uploadIfAttached netPostNull exampleSite exampleDraft)))
                   exampleSite) = Inr None"
    by (simp add: netPostNull_upload netPostNull_post)
  from null u4 p4 have w4:
    "find (\<lambda>d. d_id d = ''d1'')
         (fst (handlePublish netPostNull ''d1'' [exampleSite] [exampleDraft]))
       = Some (exampleDraft\<lparr> d_status := Error, errorMsg := nullRead ''link'' \<rparr>)"
    by blast
  show ?thesis
    using r u1 w1 w1' u2 w2 w3 w4
    by (simp add: netUp_upload netUp_post netPostDenied_post netPostNull_post exampleBody_def)
qed

subsection \<open>Base-URL normalisation\<close>

lemma includesStr_iff: "includesStr s M \<longleftrightarrow> (\<exists>a b. s = a @ M @ b)"
proof (induction s)
  case Nil
  then show ?case by auto
next
  case (Cons c cs)
  show ?case
  proof
    assume "includesStr (c # cs) M"
    then consider "prefix M (c # cs)" | "includesStr cs M" by auto
    then show "\<exists>a b. c # cs = a @ M @ b"
    proof cases
      case 1
      then obtain b where "c # cs = M @ b" by (auto simp: prefix_def)
      then have "c # cs = [] @ M @ b" by simp
      then show ?thesis by blast
    next
      case 2
      with Cons.IH obtain a b where "cs = a @ M @ b" by blast
      then have "c # cs = (c # a) @ M @ b" by simp
      then show ?thesis by blast
    qed
  next
    assume "\<exists>a b. c # cs = a @ M @ b"
    then obtain a b where ab: "c # cs = a @ M @ b" by blast
    show "includesStr (c # cs) M"
    proof (cases a)
      case Nil
      with ab have "prefix M (c # cs)" by (simp add: prefix_def)
      then show ?thesis by simp
    next
      case (Cons a1 as)
      with ab have "cs = as @ M @ b" by simp
      with Cons.IH show ?thesis by auto
    qed
  qed
qed

lemma includesStr_mono: "prefix r s \<Longrightarrow> includesStr r M \<Longrightarrow> includesStr s M"
  unfolding includesStr_iff prefix_def by (metis append.assoc)

lemma removeFrom_prefix: "prefix (removeFrom M s) s"
  by (induction s) auto

lemma removeFrom_clean:
  "\<not> list_ex isLineTerminator s \<Longrightarrow> M \<noteq> [] \<Longrightarrow> \<not> includesStr (removeFrom M s) M"
proof (induction s)
  case Nil
  then show ?case by simp
next
  case (Cons c cs)
  show ?case
  proof (cases "prefix M (c # cs)")
    case True
    have "\<not> list_ex isLineTerminator (drop (length M) (c # cs))"
      using Cons.prems(1) unfolding list_ex_iff by (meson in_set_dropD)
    with True Cons.prems show ?thesis by simp
  next
    case False
    have "\<not> prefix M (c # removeFrom M cs)"
      using False removeFrom_prefix[of M cs] by (meson Cons_prefix_Cons prefix_order.trans)
    moreover have "\<not> includesStr (removeFrom M cs) M"
      using Cons by simp
    ultimately show ?thesis using False by simp
  qed
qed

lemma removeFrom_take:
  "\<forall>i<n. \<not> prefix M (drop i s) \<Longrightarrow> take n (removeFrom M s) = take n s"
proof (induction s arbitrary: n)
  case Nil
  then show ?case by simp
next
  case (Cons c cs)
  show ?case
  proof (cases n)
    case 0
    then show ?thesis by simp
  next
    case (Suc n')
    from Cons.prems Suc have "\<not> prefix M (c # cs)"
      by (metis drop0 zero_less_Suc)
    moreover have "\<forall>i<n'. \<not> prefix M (drop i cs)"
      using Cons.prems Suc by (metis Suc_less_eq drop_Suc_Cons)
    ultimately show ?thesis
      using Cons.IH[of n'] Suc by simp
  qed
qed

lemma trim_set: "set (trim s) \<subseteq> set s"
  unfolding trim_def
  by (metis set_dropWhileD set_rev subsetI)

lemma cleanWpUrl_steps:
  "cleanWpUrl u = removeFrom ''/wp-json'' (removeFrom ''/wp-login.php''
                    (removeFrom ''/wp-admin'' (removeTrailingSlash (withProtocol (trim u)))))"
  by (simp add: cleanWpUrl_def withProtocol_def Let_def)

lemma removeTrailingSlash_prefix: "prefix (removeTrailingSlash s) s"
  by (simp add: removeTrailingSlash_def prefixeq_butlast)

lemma removeFrom3_prefix:
  "prefix (removeFrom ''/wp-json'' (removeFrom ''/wp-login.php'' (removeFrom ''/wp-admin'' s))) s"
proof -
  have "prefix (removeFrom ''/wp-login.php'' (removeFrom ''/wp-admin'' s)) s"
    using removeFrom_prefix[of "''/wp-login.php''" "removeFrom ''/wp-admin'' s"]
      removeFrom_prefix[of "''/wp-admin''" s]
    by (rule prefix_order.trans)
  with removeFrom_prefix[of "''/wp-json''" "removeFrom ''/wp-login.php'' (removeFrom ''/wp-admin'' s)"]
  show ?thesis
    by (rule prefix_order.trans)
qed

lemma cleanWpUrl_prefix: "prefix (cleanWpUrl u) (withProtocol (trim u))"
  unfolding cleanWpUrl_steps
  using removeFrom3_prefix[of "removeTrailingSlash (withProtocol (trim u))"]
    removeTrailingSlash_prefix[of "withProtocol (trim u)"]
  by (rule prefix_order.trans)

lemma cleanWpUrl_trailing_slash:
  assumes "withProtocol (trim u) = x @ ''/''"
  shows "prefix (cleanWpUrl u) x"
proof -
  have "removeTrailingSlash (withProtocol (trim u)) = x"
    using assms by (simp add: removeTrailingSlash_def)
  then show ?thesis
    unfolding cleanWpUrl_steps
    using removeFrom3_prefix[of x] by simp
qed

lemma noLT_prefix: "prefix r s \<Longrightarrow> \<not> list_ex isLineTerminator s \<Longrightarrow> \<not> list_ex isLineTerminator r"
  by (auto simp: prefix_def list_ex_iff)

lemma noLT_withProtocol:
  "\<not> list_ex isLineTerminator u \<Longrightarrow> \<not> list_ex isLineTerminator (withProtocol (trim u))"
  using trim_set[of u]
  by (auto simp: withProtocol_def list_ex_iff isLineTerminator_def)

lemma cleanWpUrl_no_markers:
  assumes "\<not> list_ex isLineTerminator u"
  shows "\<not> includesStr (cleanWpUrl u) ''/wp-admin''
         \<and> \<not> includesStr (cleanWpUrl u) ''/wp-login.php''
         \<and> \<not> includesStr (cleanWpUrl u) ''/wp-json''"
proof -
  let ?s2 = "removeTrailingSlash (withProtocol (trim u))"
  let ?s3 = "removeFrom ''/wp-admin'' ?s2"
  let ?s4 = "removeFrom ''/wp-login.php'' ?s3"
  let ?s5 = "removeFrom ''/wp-json'' ?s4"
  have n2: "\<not> list_ex isLineTerminator ?s2"
    using noLT_prefix[OF removeTrailingSlash_prefix noLT_withProtocol[OF assms]] .
  have n3: "\<not> list_ex isLineTerminator ?s3"
    using noLT_prefix[OF removeFrom_prefix n2] .
  have n4: "\<not> list_ex isLineTerminator ?s4"
    using noLT_prefix[OF removeFrom_prefix n3] .
  have a3: "\<not> includesStr ?s3 ''/wp-admin''"
    using removeFrom_clean[OF n2] by simp
  have l4: "\<not> includesStr ?s4 ''/wp-login.php''"
    using removeFrom_clean[OF n3] by simp
  have j5: "\<not> includesStr ?s5 ''/wp-json''"
    using removeFrom_clean[OF n4] by simp
  have p54: "prefix ?s5 ?s4" by (rule removeFrom_prefix)
  have p43: "prefix ?s4 ?s3" by (rule removeFrom_prefix)
  have "\<not> includesStr ?s5 ''/wp-login.php''"
    using includesStr_mono[OF p54] l4 by blast
  moreover have "\<not> includesStr ?s5 ''/wp-admin''"
    using includesStr_mono[OF p54] includesStr_mono[OF p43] a3 by blast
  ultimately show ?thesis
    using j5 unfolding cleanWpUrl_steps by simp
qed

lemma lower_slash: "toLowerAscii c = CHR ''/'' \<longleftrightarrow> c = CHR ''/''"
proof
  assume l: "toLowerAscii c = CHR ''/''"
  show "c = CHR ''/''"
  proof (cases "65 \<le> (of_char c :: nat) \<and> (of_char c :: nat) \<le> 90")
    case True
    with l have "char_of ((of_char c :: nat) + 32) = CHR ''/''"
      by (simp add: toLowerAscii_def Let_def)
    then have "(of_char (char_of ((of_char c :: nat) + 32)) :: nat) = of_char (CHR ''/'')"
      by simp
    then have "((of_char c :: nat) + 32) mod 256 = 47"
      by simp
    with True show ?thesis
      by simp
  next
    case False
    with l show ?thesis
      by (auto simp: toLowerAscii_def Let_def)
  qed
next
  assume "c = CHR ''/''"
  then show "toLowerAscii c = CHR ''/''"
    by (simp add: toLowerAscii_def)
qed

lemma lower_slash_fix: "toLowerAscii (CHR ''/'') = CHR ''/''"
  by (simp add: toLowerAscii_def)

lemma prefix2_drop:
  "prefix [a, b] (drop i s) \<longleftrightarrow> Suc i < length s \<and> s ! i = a \<and> s ! Suc i = b"
proof (cases "Suc i < length s")
  case True
  then have "drop i s = s ! i # s ! Suc i # drop (Suc (Suc i)) s"
    by (simp add: Cons_nth_drop_Suc Suc_lessD)
  with True show ?thesis
    by auto
next
  case False
  then have "length (drop i s) < 2"
    by simp
  then have "\<not> prefix [a, b] (drop i s)"
    using prefix_length_le[of "[a, b]" "drop i s"] by auto
  with False show ?thesis
    by simp
qed

lemma prefix_drop_mono: "prefix r s \<Longrightarrow> prefix (drop i r) (drop i s)"
  by (auto simp: prefix_def)

lemma safe6_removeFrom:
  assumes s: "safe6 s" and M: "prefix ''/w'' M"
  shows "safe6 (removeFrom M s) \<and> take 6 (removeFrom M s) = take 6 s"
proof -
  have nomatch: "\<forall>i<6. \<not> prefix M (drop i s)"
    using s M unfolding safe6_def by (meson prefix_order.trans)
  then have tk: "take 6 (removeFrom M s) = take 6 s"
    by (rule removeFrom_take)
  then have "length (take 6 (removeFrom M s)) = length (take 6 s)"
    by simp
  with s have len: "length (removeFrom M s) \<ge> 6"
    by (simp add: safe6_def)
  have "\<not> prefix ''/w'' (drop i (removeFrom M s))" if "i < 6" for i
  proof
    assume "prefix ''/w'' (drop i (removeFrom M s))"
    moreover have "prefix (drop i (removeFrom M s)) (drop i s)"
      using removeFrom_prefix by (rule prefix_drop_mono)
    ultimately have "prefix ''/w'' (drop i s)"
      by (rule prefix_order.trans)
    with s that show False
      by (simp add: safe6_def)
  qed
  with len tk show ?thesis
    by (simp add: safe6_def)
qed

lemma removeTrailingSlash_nth:
  "i < length (removeTrailingSlash s) \<Longrightarrow> removeTrailingSlash s ! i = s ! i"
  by (auto simp: removeTrailingSlash_def nth_butlast)

lemma removeTrailingSlash_length:
  "length s - 1 \<le> length (removeTrailingSlash s) \<and> length (removeTrailingSlash s) \<le> length s"
  by (auto simp: removeTrailingSlash_def)

lemma lower_nth:
  assumes "map toLowerAscii (take n s) = L" "i < length L"
  shows "toLowerAscii (s ! i) = L ! i \<and> i < length s \<and> length L \<le> length s"
proof -
  from assms(1) have len: "length L = min (length s) n"
    by auto
  with assms(2) have i: "i < length s" "i < n"
    by auto
  from assms(1) have "map toLowerAscii (take n s) ! i = L ! i"
    by simp
  with i have "toLowerAscii (s ! i) = L ! i"
    by (simp add: nth_map)
  moreover have "length L \<le> length s"
    using len by simp
  ultimately show ?thesis using i by simp
qed

lemma nth_not_slash:
  assumes "map toLowerAscii (take n s) = L" "i < length L" "L ! i \<noteq> CHR ''/''"
  shows "s ! i \<noteq> CHR ''/''"
proof
  assume "s ! i = CHR ''/''"
  with lower_nth[OF assms(1,2)] have "toLowerAscii (CHR ''/'') = L ! i"
    by simp
  with assms(3) show False
    by (simp add: lower_slash_fix)
qed

lemma safe6_removeTrailingSlash:
  assumes "hasProtocol s"
  shows "safe6 (removeTrailingSlash s) \<and> take 6 (removeTrailingSlash s) = take 6 s"
proof -
  let ?r = "removeTrailingSlash s"
  have nth: "?r ! i = s ! i" if "i < length ?r" for i
    using that by (rule removeTrailingSlash_nth)
  from assms consider
      (http) "map toLowerAscii (take 7 s) = ''http://''"
    | (https) "map toLowerAscii (take 8 s) = ''https://''"
    unfolding hasProtocol_def by blast
  then have facts: "length s \<ge> 7
      \<and> s ! 0 \<noteq> CHR ''/'' \<and> s ! 1 \<noteq> CHR ''/'' \<and> s ! 2 \<noteq> CHR ''/'' \<and> s ! 3 \<noteq> CHR ''/''
      \<and> s ! 4 \<noteq> CHR ''/'' \<and> (s ! 5 \<noteq> CHR ''/'' \<or> s ! 6 = CHR ''/'')"
  proof cases
    case http
    note l = lower_nth[OF http]
    have "length s \<ge> 7" using l[of 0] by simp
    moreover have "s ! 0 \<noteq> CHR ''/''" by (rule nth_not_slash[OF http, of 0]) simp_all
    moreover have "s ! 1 \<noteq> CHR ''/''" by (rule nth_not_slash[OF http, of 1]) simp_all
    moreover have "s ! 2 \<noteq> CHR ''/''" by (rule nth_not_slash[OF http, of 2]) simp_all
    moreover have "s ! 3 \<noteq> CHR ''/''" by (rule nth_not_slash[OF http, of 3]) simp_all
    moreover have "s ! 4 \<noteq> CHR ''/''" by (rule nth_not_slash[OF http, of 4]) simp_all
    moreover have "s ! 6 = CHR ''/''" using l[of 6] lower_slash[of "s ! 6"] by simp
    ultimately show ?thesis by blast
  next
    case https
    note l = lower_nth[OF https]
    have "length s \<ge> 7" using l[of 0] by simp
    moreover have "s ! 0 \<noteq> CHR ''/''" by (rule nth_not_slash[OF https, of 0]) simp_all
    moreover have "s ! 1 \<noteq> CHR ''/''" by (rule nth_not_slash[OF https, of 1]) simp_all
    moreover have "s ! 2 \<noteq> CHR ''/''" by (rule nth_not_slash[OF https, of 2]) simp_all
    moreover have "s ! 3 \<noteq> CHR ''/''" by (rule nth_not_slash[OF https, of 3]) simp_all
    moreover have "s ! 4 \<noteq> CHR ''/''" by (rule nth_not_slash[OF https, of 4]) simp_all
    moreover have "s ! 5 \<noteq> CHR ''/''" by (rule nth_not_slash[OF https, of 5]) simp_all
    ultimately show ?thesis by blast
  qed
  have len: "length ?r \<ge> 6"
    using facts removeTrailingSlash_length[of s] by arith
  have tk: "take 6 ?r = take 6 s"
    using facts by (simp add: removeTrailingSlash_def take_butlast)
  have no: "\<not> prefix ''/w'' (drop i ?r)" if "i < 6" for i
  proof
    assume "prefix ''/w'' (drop i ?r)"
    then have p: "Suc i < length ?r" "?r ! i = CHR ''/''" "?r ! Suc i = CHR ''w''"
      by (simp_all add: prefix2_drop)
    from p have "s ! i = CHR ''/''" "s ! Suc i = CHR ''w''"
      using nth[of i] nth[of "Suc i"] by simp_all
    moreover from that have "i = 0 \<or> i = 1 \<or> i = 2 \<or> i = 3 \<or> i = 4 \<or> i = 5"
      by arith
    ultimately show False
      using facts by (auto simp: eval_nat_numeral)
  qed
  from len tk no show ?thesis
    by (simp add: safe6_def)
qed

lemma hasProtocol_withProtocol: "hasProtocol (withProtocol t)"
proof (cases "hasProtocol t")
  case True
  then show ?thesis by (simp add: withProtocol_def)
next
  case False
  have "map toLowerAscii ''https://'' = ''https://''"
    by code_simp
  then have "map toLowerAscii (take 8 (''https://'' @ t)) = ''https://''"
    by simp
  with False show ?thesis
    by (simp add: withProtocol_def hasProtocol_def)
qed

lemma cleanWpUrl_scheme: "take 6 (cleanWpUrl u) = take 6 (withProtocol (trim u))"
proof -
  let ?s1 = "withProtocol (trim u)"
  let ?s2 = "removeTrailingSlash ?s1"
  let ?s3 = "removeFrom ''/wp-admin'' ?s2"
  let ?s4 = "removeFrom ''/wp-login.php'' ?s3"
  note a2 = safe6_removeTrailingSlash[OF hasProtocol_withProtocol[of "trim u"]]
  have a3: "safe6 ?s3 \<and> take 6 ?s3 = take 6 ?s2"
    using a2 by (intro safe6_removeFrom) simp_all
  have a4: "safe6 ?s4 \<and> take 6 ?s4 = take 6 ?s3"
    using a3 by (intro safe6_removeFrom) simp_all
  have a5: "safe6 (removeFrom ''/wp-json'' ?s4) \<and> take 6 (removeFrom ''/wp-json'' ?s4) = take 6 ?s4"
    using a4 by (intro safe6_removeFrom) simp_all
  from a2 a3 a4 a5 show ?thesis
    unfolding cleanWpUrl_steps by simp
qed

lemma removeFrom_skip:
  "\<forall>i<length x. \<not> prefix M (drop i (x @ y)) \<Longrightarrow> removeFrom M (x @ y) = x @ removeFrom M y"
proof (induction x)
  case Nil
  then show ?case by simp
next
  case (Cons c cs)
  from Cons.prems have "\<not> prefix M (c # cs @ y)"
    by (metis append_Cons drop0 length_greater_0_conv list.discI)
  moreover have "\<forall>i<length cs. \<not> prefix M (drop i (cs @ y))"
    using Cons.prems by (metis Suc_less_eq append_Cons drop_Suc_Cons length_Cons)
  ultimately show ?case
    using Cons.IH by simp
qed

lemma removeFrom_hit:
  "M \<noteq> [] \<Longrightarrow> \<not> list_ex isLineTerminator r \<Longrightarrow> removeFrom M (M @ r) = []"
  by (cases M) simp_all

text \<open>No marker starts inside the base or at the slash before it.\<close>

lemma no_start_in_base:
  assumes M: "M = CHR ''/'' # m" "CHR ''/'' \<notin> set m"
    and Z: "\<not> includesStr Z M"
    and y: "y = [] \<or> hd y = CHR ''/''"
    and j: "j < length Z"
  shows "\<not> prefix M (drop j (Z @ y))"
proof
  assume "prefix M (drop j (Z @ y))"
  with j have "prefix M (drop j Z @ y)"
    by simp
  then have alt: "prefix M (drop j Z) \<or> (\<exists>us. M = drop j Z @ us \<and> prefix us y)"
    by (simp add: prefix_append)
  show False
  proof (cases "prefix M (drop j Z)")
    case True
    then obtain r where "drop j Z = M @ r"
      by (auto simp: prefix_def)
    then have "Z = take j Z @ M @ r"
      by (metis append_take_drop_id)
    with Z show False
      by (auto simp: includesStr_iff)
  next
    case False
    with alt obtain us where us: "M = drop j Z @ us" "prefix us y"
      by blast
    with False have ne: "us \<noteq> []"
      by auto
    with us(2) y have "hd us = CHR ''/''"
      by (cases us; cases y) auto
    moreover from j have "drop j Z \<noteq> []"
      by simp
    ultimately have "CHR ''/'' \<in> set (tl M)"
      using us(1) ne by (cases "drop j Z"; cases us) auto
    with M show False
      by simp
  qed
qed

lemma no_start_in_protocol:
  assumes Q: "map toLowerAscii Q = ''http://'' \<or> map toLowerAscii Q = ''https://''"
    and i: "Suc i < length Q"
  shows "\<not> prefix ''/w'' (drop i (Q @ x))"
proof
  assume "prefix ''/w'' (drop i (Q @ x))"
  then have "Suc i < length (Q @ x) \<and> (Q @ x) ! i = CHR ''/'' \<and> (Q @ x) ! Suc i = CHR ''w''"
    by (rule iffD1[OF prefix2_drop])
  then have p: "(Q @ x) ! i = CHR ''/''" "(Q @ x) ! Suc i = CHR ''w''"
    by simp_all
  with i have q: "Q ! i = CHR ''/''" "Q ! Suc i = CHR ''w''"
    by (simp_all add: nth_append)
  from Q show False
  proof
    assume h: "map toLowerAscii Q = ''http://''"
    then have "length (map toLowerAscii Q) = length ''http://''"
      by simp
    then have len: "length Q = 7"
      by simp
    then have tk: "map toLowerAscii (take 7 Q) = ''http://''"
      using h by simp
    have ns: "Q ! k \<noteq> CHR ''/''" if "k < 5" for k
      using that by (intro nth_not_slash[OF tk]) (auto simp: less_Suc_eq eval_nat_numeral)
    have s6: "Q ! 6 = CHR ''/''"
      using lower_nth[OF tk, of 6] lower_slash[of "Q ! 6"] by simp
    from i len have "i < 5 \<or> i = 5" by arith
    with q ns s6 show False
      by (auto simp: eval_nat_numeral)
  next
    assume h: "map toLowerAscii Q = ''https://''"
    then have "length (map toLowerAscii Q) = length ''https://''"
      by simp
    then have len: "length Q = 8"
      by simp
    then have tk: "map toLowerAscii (take 8 Q) = ''https://''"
      using h by simp
    have ns: "Q ! k \<noteq> CHR ''/''" if "k < 6" for k
      using that by (intro nth_not_slash[OF tk]) (auto simp: less_Suc_eq eval_nat_numeral)
    have s7: "Q ! 7 = CHR ''/''"
      using lower_nth[OF tk, of 7] lower_slash[of "Q ! 7"] by simp
    from i len have "i < 6 \<or> i = 6" by arith
    with q ns s7 show False
      by (auto simp: eval_nat_numeral)
  qed
qed

lemma protocol_shape:
  assumes "map toLowerAscii Q = ''http://'' \<or> map toLowerAscii Q = ''https://''"
  shows "Q = butlast Q @ ''/'' \<and> Q \<noteq> []"
proof -
  from assms have ne: "Q \<noteq> []"
    by auto
  from assms have "map toLowerAscii [last Q] = ''/''"
  proof
    assume h: "map toLowerAscii Q = ''http://''"
    have "last (map toLowerAscii Q) = CHR ''/''" unfolding h by simp
    with ne show ?thesis by (simp add: last_map)
  next
    assume h: "map toLowerAscii Q = ''https://''"
    have "last (map toLowerAscii Q) = CHR ''/''" unfolding h by simp
    with ne show ?thesis by (simp add: last_map)
  qed
  then have "last Q = CHR ''/''"
    by (simp add: lower_slash)
  with ne show ?thesis
    by (metis append_butlast_last_id)
qed

lemma skip_base:
  assumes Q: "map toLowerAscii Q = ''http://'' \<or> map toLowerAscii Q = ''https://''"
    and M: "M = CHR ''/'' # CHR ''w'' # m" "CHR ''/'' \<notin> set m"
    and b: "\<not> includesStr (CHR ''/'' # b) M"
    and y: "y = [] \<or> hd y = CHR ''/''"
  shows "removeFrom M (Q @ b @ y) = Q @ b @ removeFrom M y"
proof -
  let ?Q' = "butlast Q"
  let ?Z = "CHR ''/'' # b"
  from protocol_shape[OF Q] have shape: "Q = ?Q' @ ''/''" and ne: "Q \<noteq> []"
    by simp_all
  have whole: "Q @ b @ y = ?Q' @ ?Z @ y"
    using shape by (metis append.assoc append_Cons append_Nil)
  have pw: "prefix ''/w'' M"
    using M by simp
  have "\<not> prefix M (drop i ((Q @ b) @ y))" if i: "i < length (Q @ b)" for i
  proof (cases "i < length ?Q'")
    case True
    with ne have "Suc i < length Q"
      by simp
    from no_start_in_protocol[OF Q this, of "b @ y"] pw show ?thesis
      by (metis append.assoc prefix_order.trans)
  next
    case False
    define j where "j = i - length ?Q'"
    from False i ne have j: "j < length ?Z"
      by (simp add: j_def)
    have e1: "drop i ((Q @ b) @ y) = drop i (?Q' @ ?Z @ y)"
      using whole by (simp only: append_assoc)
    from False have e2: "drop i (?Q' @ ?Z @ y) = drop j (?Z @ y)"
      by (simp add: j_def)
    have "\<not> prefix M (drop j (?Z @ y))"
      using no_start_in_base[of M "CHR ''w'' # m" ?Z y j] M b y j by simp
    then show ?thesis
      unfolding e1 e2 .
  qed
  then have "removeFrom M ((Q @ b) @ y) = (Q @ b) @ removeFrom M y"
    by (intro removeFrom_skip) blast
  then show ?thesis
    by simp
qed

lemma strip_markers_after_base:
  assumes Q: "map toLowerAscii Q = ''http://'' \<or> map toLowerAscii Q = ''https://''"
    and bA: "\<not> includesStr (CHR ''/'' # b) ''/wp-admin''"
    and bL: "\<not> includesStr (CHR ''/'' # b) ''/wp-login.php''"
    and bJ: "\<not> includesStr (CHR ''/'' # b) ''/wp-json''"
    and y: "y = [] \<or> (\<exists>M r. M \<in> {''/wp-admin'', ''/wp-login.php'', ''/wp-json''}
                              \<and> y = M @ r \<and> \<not> list_ex isLineTerminator r)"
  shows "removeFrom ''/wp-json'' (removeFrom ''/wp-login.php'' (removeFrom ''/wp-admin''
           (Q @ b @ y))) = Q @ b"
proof -
  have sA: "removeFrom ''/wp-admin'' (Q @ b @ z) = Q @ b @ removeFrom ''/wp-admin'' z"
    if "z = [] \<or> hd z = CHR ''/''" for z
    using skip_base[OF Q _ _ bA that, of "''p-admin''"] by simp
  have sL: "removeFrom ''/wp-login.php'' (Q @ b @ z) = Q @ b @ removeFrom ''/wp-login.php'' z"
    if "z = [] \<or> hd z = CHR ''/''" for z
    using skip_base[OF Q _ _ bL that, of "''p-login.php''"] by simp
  have sJ: "removeFrom ''/wp-json'' (Q @ b @ z) = Q @ b @ removeFrom ''/wp-json'' z"
    if "z = [] \<or> hd z = CHR ''/''" for z
    using skip_base[OF Q _ _ bJ that, of "''p-json''"] by simp
  have pA: "removeFrom ''/wp-admin'' (Q @ b) = Q @ b"
    using sA[of "[]"] by simp
  have pL: "removeFrom ''/wp-login.php'' (Q @ b) = Q @ b"
    using sL[of "[]"] by simp
  have pJ: "removeFrom ''/wp-json'' (Q @ b) = Q @ b"
    using sJ[of "[]"] by simp
  from y consider (none) "y = []"
    | (admin) r where "y = ''/wp-admin'' @ r" "\<not> list_ex isLineTerminator r"
    | (login) r where "y = ''/wp-login.php'' @ r" "\<not> list_ex isLineTerminator r"
    | (json) r where "y = ''/wp-json'' @ r" "\<not> list_ex isLineTerminator r"
    by blast
  then show ?thesis
  proof cases
    case none
    with pA pL pJ show ?thesis by simp
  next
    case admin
    have "removeFrom ''/wp-admin'' (Q @ b @ y) = Q @ b @ removeFrom ''/wp-admin'' y"
      using admin(1) by (intro sA) simp
    also have "removeFrom ''/wp-admin'' y = []"
      unfolding admin(1) using admin(2) by (intro removeFrom_hit) simp_all
    finally show ?thesis
      using pL pJ by simp
  next
    case login
    let ?r3 = "removeFrom ''/wp-admin'' r"
    have n3: "\<not> list_ex isLineTerminator ?r3"
      using noLT_prefix[OF removeFrom_prefix login(2)] .
    have "removeFrom ''/wp-admin'' (Q @ b @ y) = Q @ b @ removeFrom ''/wp-admin'' y"
      using login(1) by (intro sA) simp
    also have "removeFrom ''/wp-admin'' y = ''/wp-login.php'' @ ?r3"
      unfolding login(1) by simp
    finally have s3: "removeFrom ''/wp-admin'' (Q @ b @ y) = Q @ b @ ''/wp-login.php'' @ ?r3" .
    have "removeFrom ''/wp-login.php'' (Q @ b @ ''/wp-login.php'' @ ?r3)
            = Q @ b @ removeFrom ''/wp-login.php'' (''/wp-login.php'' @ ?r3)"
      by (intro sL) simp
    also have "removeFrom ''/wp-login.php'' (''/wp-login.php'' @ ?r3) = []"
      using n3 by (intro removeFrom_hit) simp_all
    finally have s4: "removeFrom ''/wp-login.php'' (Q @ b @ ''/wp-login.php'' @ ?r3) = Q @ b"
      by simp
    show ?thesis
      unfolding s3 s4 using pJ .
  next
    case json
    let ?r3 = "removeFrom ''/wp-admin'' r"
    let ?r4 = "removeFrom ''/wp-login.php'' ?r3"
    have n3: "\<not> list_ex isLineTerminator ?r3"
      using noLT_prefix[OF removeFrom_prefix json(2)] .
    have n4: "\<not> list_ex isLineTerminator ?r4"
      using noLT_prefix[OF removeFrom_prefix n3] .
    have "removeFrom ''/wp-admin'' (Q @ b @ y) = Q @ b @ removeFrom ''/wp-admin'' y"
      using json(1) by (intro sA) simp
    also have "removeFrom ''/wp-admin'' y = ''/wp-json'' @ ?r3"
      unfolding json(1) by simp
    finally have s3: "removeFrom ''/wp-admin'' (Q @ b @ y) = Q @ b @ ''/wp-json'' @ ?r3" .
    have "removeFrom ''/wp-login.php'' (Q @ b @ ''/wp-json'' @ ?r3)
            = Q @ b @ removeFrom ''/wp-login.php'' (''/wp-json'' @ ?r3)"
      by (intro sL) simp
    also have "removeFrom ''/wp-login.php'' (''/wp-json'' @ ?r3) = ''/wp-json'' @ ?r4"
      by simp
    finally have s4: "removeFrom ''/wp-login.php'' (Q @ b @ ''/wp-json'' @ ?r3)
                        = Q @ b @ ''/wp-json'' @ ?r4" .
    have "removeFrom ''/wp-json'' (Q @ b @ ''/wp-json'' @ ?r4)
            = Q @ b @ removeFrom ''/wp-json'' (''/wp-json'' @ ?r4)"
      by (intro sJ) simp
    also have "removeFrom ''/wp-json'' (''/wp-json'' @ ?r4) = []"
      using n4 by (intro removeFrom_hit) simp_all
    finally have s5: "removeFrom ''/wp-json'' (Q @ b @ ''/wp-json'' @ ?r4) = Q @ b"
      by simp
    show ?thesis
      unfolding s3 s4 s5 ..
  qed
qed

lemma removeTrailingSlash_after:
  "M \<noteq> [] \<Longrightarrow> last M \<noteq> CHR ''/'' \<Longrightarrow>
     removeTrailingSlash (x @ M @ r) = x @ M @ removeTrailingSlash r"
  by (cases "r = []") (auto simp: removeTrailingSlash_def butlast_append)

lemma hasProtocol_append:
  assumes "map toLowerAscii P = ''http://'' \<or> map toLowerAscii P = ''https://''"
  shows "hasProtocol (P @ x)"
proof -
  from assms show ?thesis
  proof
    assume h: "map toLowerAscii P = ''http://''"
    then have "length (map toLowerAscii P) = length ''http://''" by simp
    then have "take 7 (P @ x) = P" by simp
    with h show ?thesis by (simp add: hasProtocol_def)
  next
    assume h: "map toLowerAscii P = ''https://''"
    then have "length (map toLowerAscii P) = length ''https://''" by simp
    then have "take 8 (P @ x) = P" by simp
    with h show ?thesis by (simp add: hasProtocol_def)
  qed
qed

lemma lower_https: "map toLowerAscii ''https://'' = ''https://''"
  by code_simp

lemma cleanWpUrl_wellformed:
  assumes t: "trim u = P @ b @ tail"
    and P: "(P = [] \<and> \<not> hasProtocol (b @ tail))
            \<or> map toLowerAscii P = ''http://'' \<or> map toLowerAscii P = ''https://''"
    and b: "b \<noteq> []" "last b \<noteq> CHR ''/''"
    and bA: "\<not> includesStr (CHR ''/'' # b) ''/wp-admin''"
    and bL: "\<not> includesStr (CHR ''/'' # b) ''/wp-login.php''"
    and bJ: "\<not> includesStr (CHR ''/'' # b) ''/wp-json''"
    and tail: "tail = [] \<or> tail = ''/''
               \<or> (\<exists>M r. M \<in> {''/wp-admin'', ''/wp-login.php'', ''/wp-json''}
                        \<and> tail = M @ r \<and> \<not> list_ex isLineTerminator r)"
  shows "cleanWpUrl u = (if P = [] then ''https://'' else P) @ b"
proof -
  define Q where "Q = (if P = [] then ''https://'' else P)"
  have Q: "map toLowerAscii Q = ''http://'' \<or> map toLowerAscii Q = ''https://''"
    using P lower_https by (auto simp: Q_def)
  have s1: "withProtocol (trim u) = Q @ b @ tail"
  proof (cases "P = []")
    case True
    with P t show ?thesis
      by (auto simp: withProtocol_def Q_def)
  next
    case False
    with P have "hasProtocol (P @ b @ tail)"
      by (intro hasProtocol_append) simp
    with False t show ?thesis
      by (simp add: withProtocol_def Q_def)
  qed
  have "\<exists>y. removeTrailingSlash (Q @ b @ tail) = Q @ b @ y
          \<and> (y = [] \<or> (\<exists>M r. M \<in> {''/wp-admin'', ''/wp-login.php'', ''/wp-json''}
                              \<and> y = M @ r \<and> \<not> list_ex isLineTerminator r))"
  proof -
    from tail consider (none) "tail = []" | (slash) "tail = ''/''"
      | (marker) M r where "M \<in> {''/wp-admin'', ''/wp-login.php'', ''/wp-json''}"
          "tail = M @ r" "\<not> list_ex isLineTerminator r"
      by blast
    then show ?thesis
    proof cases
      case none
      with b have "removeTrailingSlash (Q @ b @ tail) = Q @ b @ []"
        by (simp add: removeTrailingSlash_def)
      then show ?thesis by blast
    next
      case slash
      have "removeTrailingSlash ((Q @ b) @ ''/'') = Q @ b"
        unfolding removeTrailingSlash_def by (simp only: butlast_snoc last_snoc) simp
      with slash have "removeTrailingSlash (Q @ b @ tail) = Q @ b @ []"
        by simp
      then show ?thesis by blast
    next
      case marker
      from marker(1) have M: "M \<noteq> []" "last M \<noteq> CHR ''/''"
        by auto
      have "removeTrailingSlash ((Q @ b) @ M @ r) = (Q @ b) @ M @ removeTrailingSlash r"
        using M by (rule removeTrailingSlash_after)
      then have "removeTrailingSlash (Q @ b @ tail) = Q @ b @ M @ removeTrailingSlash r"
        using marker(2) by simp
      moreover have "\<not> list_ex isLineTerminator (removeTrailingSlash r)"
        using noLT_prefix[OF removeTrailingSlash_prefix marker(3)] .
      ultimately show ?thesis
        using marker(1) by blast
    qed
  qed
  then obtain y where y: "removeTrailingSlash (Q @ b @ tail) = Q @ b @ y"
      "y = [] \<or> (\<exists>M r. M \<in> {''/wp-admin'', ''/wp-login.php'', ''/wp-json''}
                              \<and> y = M @ r \<and> \<not> list_ex isLineTerminator r)"
    by blast
  show ?thesis
    unfolding cleanWpUrl_steps s1 y(1) Q_def[symmetric]
    using strip_markers_after_base[OF Q bA bL bJ y(2)] .
qed

lemma cleanWpUrl_upper: "cleanWpUrl ''HTTP://X.com/wp-json/'' = ''HTTP://X.com''"
  by code_simp

text \<open>
  What the normalisation does guarantee. The result for every input is the trimmed input,
  given the scheme \<open>https://\<close> when it had neither \<open>http://\<close> nor \<open>https://\<close> in any
  letter case, and cut at the end: nothing is rewritten, so the case of the host is kept,
  and the first six characters stay. A slash at the end of the input is cut off. Of an
  input without line breaks, none of the texts \<open>/wp-admin\<close>, \<open>/wp-login.php\<close>,
  \<open>/wp-json\<close> is left. When the trimmed input is an optional scheme, a base address and
  then nothing, one slash, or one of these three texts with whatever follows it, the result
  is exactly the scheme (\<open>https://\<close> when none was given) and the base address, provided
  the base address is not empty, does not end in a slash and holds none of the three
  texts, also when a slash is put before it.
\<close>

lemma cleanWpUrl_guarantees:
  "cleanWpUrl ''example.com/wp-admin/'' = ''https://example.com''
   \<and> cleanWpUrl ''HTTP://X.com/wp-json/'' = ''HTTP://X.com''
   \<and> hasProtocol (withProtocol (trim u))
   \<and> (\<not> hasProtocol (trim u) \<longrightarrow> withProtocol (trim u) = ''https://'' @ trim u)
   \<and> (hasProtocol (trim u) \<longrightarrow> withProtocol (trim u) = trim u)
   \<and> prefix (cleanWpUrl u) (withProtocol (trim u))
   \<and> take 6 (cleanWpUrl u) = take 6 (withProtocol (trim u))
   \<and> (\<forall>x. withProtocol (trim u) = x @ ''/'' \<longrightarrow> prefix (cleanWpUrl u) x)
   \<and> (\<not> list_ex isLineTerminator u \<longrightarrow>
         \<not> includesStr (cleanWpUrl u) ''/wp-admin''
         \<and> \<not> includesStr (cleanWpUrl u) ''/wp-login.php''
         \<and> \<not> includesStr (cleanWpUrl u) ''/wp-json'')
   \<and> (trim u = P @ b @ tail
        \<and> ((P = [] \<and> \<not> hasProtocol (b @ tail))
            \<or> map toLowerAscii P = ''http://'' \<or> map toLowerAscii P = ''https://'')
        \<and> b \<noteq> [] \<and> last b \<noteq> CHR ''/''
        \<and> \<not> includesStr (CHR ''/'' # b) ''/wp-admin''
        \<and> \<not> includesStr (CHR ''/'' # b) ''/wp-login.php''
        \<and> \<not> includesStr (CHR ''/'' # b) ''/wp-json''
        \<and> (tail = [] \<or> tail = ''/''
            \<or> (\<exists>M r. M \<in> {''/wp-admin'', ''/wp-login.php'', ''/wp-json''}
                     \<and> tail = M @ r \<and> \<not> list_ex isLineTerminator r))
        \<longrightarrow> cleanWpUrl u = (if P = [] then ''https://'' else P) @ b)"
proof -
  have w: "withProtocol (trim u) = (if \<not> hasProtocol (trim u) then ''https://'' @ trim u else trim u)"
    by (simp add: withProtocol_def)
  have slash: "\<forall>x. withProtocol (trim u) = x @ ''/'' \<longrightarrow> prefix (cleanWpUrl u) x"
    using cleanWpUrl_trailing_slash[of u] by blast
  have markers: "\<not> list_ex isLineTerminator u \<longrightarrow>
         \<not> includesStr (cleanWpUrl u) ''/wp-admin''
         \<and> \<not> includesStr (cleanWpUrl u) ''/wp-login.php''
         \<and> \<not> includesStr (cleanWpUrl u) ''/wp-json''"
    using cleanWpUrl_no_markers[of u] by blast
  have exact: "trim u = P @ b @ tail
        \<and> ((P = [] \<and> \<not> hasProtocol (b @ tail))
            \<or> map toLowerAscii P = ''http://'' \<or> map toLowerAscii P = ''https://'')
        \<and> b \<noteq> [] \<and> last b \<noteq> CHR ''/''
        \<and> \<not> includesStr (CHR ''/'' # b) ''/wp-admin''
        \<and> \<not> includesStr (CHR ''/'' # b) ''/wp-login.php''
        \<and> \<not> includesStr (CHR ''/'' # b) ''/wp-json''
        \<and> (tail = [] \<or> tail = ''/''
            \<or> (\<exists>M r. M \<in> {''/wp-admin'', ''/wp-login.php'', ''/wp-json''}
                     \<and> tail = M @ r \<and> \<not> list_ex isLineTerminator r))
        \<longrightarrow> cleanWpUrl u = (if P = [] then ''https://'' else P) @ b"
    by (intro impI, elim conjE, rule cleanWpUrl_wellformed[of u P b tail]; assumption)
  show ?thesis
    using cleanWpUrl_example cleanWpUrl_upper hasProtocol_withProtocol[of "trim u"] w
      cleanWpUrl_prefix[of u] cleanWpUrl_scheme[of u] slash markers exact
    by (intro conjI) simp_all
qed

lemma pastedUrl_facts:
  "trim pastedUrl = [] @ ''example.com/blog'' @ ''/wp-login.php?redirect_to=x''
   \<and> \<not> hasProtocol (''example.com/blog'' @ ''/wp-login.php?redirect_to=x'')
   \<and> \<not> hasProtocol (trim pastedUrl)
   \<and> last ''example.com/blog'' \<noteq> CHR ''/''
   \<and> \<not> includesStr (CHR ''/'' # ''example.com/blog'') ''/wp-admin''
   \<and> \<not> includesStr (CHR ''/'' # ''example.com/blog'') ''/wp-login.php''
   \<and> \<not> includesStr (CHR ''/'' # ''example.com/blog'') ''/wp-json''
   \<and> \<not> list_ex isLineTerminator ''?redirect_to=x''
   \<and> \<not> list_ex isLineTerminator pastedUrl"
  by code_simp

lemma slashUrl_facts:
  "withProtocol (trim ''example.com/'') = ''https://example.com'' @ ''/''"
  by code_simp

lemma cleanWpUrl_guarantees_example:
  "trim pastedUrl = [] @ ''example.com/blog'' @ ''/wp-login.php?redirect_to=x''
   \<and> \<not> hasProtocol (''example.com/blog'' @ ''/wp-login.php?redirect_to=x'')
   \<and> \<not> hasProtocol (trim pastedUrl)
   \<and> last ''example.com/blog'' \<noteq> CHR ''/''
   \<and> \<not> includesStr (CHR ''/'' # ''example.com/blog'') ''/wp-admin''
   \<and> \<not> includesStr (CHR ''/'' # ''example.com/blog'') ''/wp-login.php''
   \<and> \<not> includesStr (CHR ''/'' # ''example.com/blog'') ''/wp-json''
   \<and> \<not> list_ex isLineTerminator ''?redirect_to=x''
   \<and> \<not> list_ex isLineTerminator pastedUrl
   \<and> cleanWpUrl pastedUrl = ''https://example.com/blog''
   \<and> \<not> includesStr (cleanWpUrl pastedUrl) ''/wp-login.php''
   \<and> withProtocol (trim pastedUrl) = ''https://'' @ trim pastedUrl
   \<and> withProtocol (trim ''example.com/'') = ''https://example.com'' @ ''/''
   \<and> prefix (cleanWpUrl ''example.com/'') ''https://example.com''"
proof -
  note f = pastedUrl_facts
  note a = cleanWpUrl_guarantees[of pastedUrl "[]" "''example.com/blog''"
      "''/wp-login.php?redirect_to=x''"]
  note b = cleanWpUrl_guarantees[of "''example.com/''" "[]" "[]" "[]"]
  have tailform: "\<exists>M r. M \<in> {''/wp-admin'', ''/wp-login.php'', ''/wp-json''}
       \<and> ''/wp-login.php?redirect_to=x'' = M @ r \<and> \<not> list_ex isLineTerminator r"
  proof (intro exI conjI)
    show "''/wp-login.php'' \<in> {''/wp-admin'', ''/wp-login.php'', ''/wp-json''}"
      by simp
    show "''/wp-login.php?redirect_to=x'' = ''/wp-login.php'' @ ''?redirect_to=x''"
      by simp
    show "\<not> list_ex isLineTerminator ''?redirect_to=x''"
      using f by blast
  qed
  have exact: "cleanWpUrl pastedUrl = ''https://example.com/blog''"
    using a f tailform by simp
  have clean: "\<not> includesStr (cleanWpUrl pastedUrl) ''/wp-login.php''"
    using a f by blast
  have scheme: "withProtocol (trim pastedUrl) = ''https://'' @ trim pastedUrl"
    using a f by blast
  have slash: "prefix (cleanWpUrl ''example.com/'') ''https://example.com''"
    using b slashUrl_facts by blast
  show ?thesis
    using f exact clean scheme slashUrl_facts slash by blast
qed

text \<open>
  C9. The normalisation does not enforce a scheme for every input, and what it strips is not
  only a pasted suffix. Each of the three texts is cut from its first occurrence behind any
  slash, and the second slash of the scheme is such a slash. For a site whose host name
  begins with \<open>wp-admin\<close> or \<open>wp-json\<close> the host is cut away with everything behind it:
  the result is \<open>https:/\<close> (or \<open>http:/\<close>), which does not begin with a scheme as the
  normalisation itself tests it, and the requests for the site \<open>wp-json.example.com\<close>
  go to \<open>https://wp-json/wp/v2/posts\<close>. The two examples of a pasted suffix come out as
  expected: \<open>example.com/wp-admin/\<close> gives \<open>https://example.com\<close>, and
  \<open>HTTP://X.com/wp-json/\<close> gives \<open>HTTP://X.com\<close>.
\<close>

theorem cleanWpUrl_cuts_host:
  "cleanWpUrl ''wp-admin.example.com'' = ''https:/''
   \<and> \<not> hasProtocol (cleanWpUrl ''wp-admin.example.com'')
   \<and> cleanWpUrl ''http://wp-admin.example.com/'' = ''http:/''
   \<and> cleanWpUrl (url hostSite) = ''https:/''
   \<and> \<not> hasProtocol (cleanWpUrl (url hostSite))
   \<and> standardUrl (cleanWpUrl (url hostSite)) ''/posts'' = ''https://wp-json/wp/v2/posts''
   \<and> snd (fetchWpWithFallback netUp 0 hostSite ''/posts'') = [''https://wp-json/wp/v2/posts'']
   \<and> cleanWpUrl ''example.com/wp-admin/'' = ''https://example.com''
   \<and> cleanWpUrl ''HTTP://X.com/wp-json/'' = ''HTTP://X.com''"
  by code_simp

end
